theory Spec2Isabelle
  imports
    Complex_Main
    "HOL-Library.Sublist"
    "HOL-Library.Char_ord"
    "HOL-Library.List_Lexorder"
    "HOL-Library.Product_Lexorder"
    "HOL-Library.Multiset"
begin

section \<open>Python values, exceptions and the filesystem snapshot\<close>

text \<open>
  The development embeds \<^verbatim>\<open>src/file_config_reader.py\<close> (class \<^verbatim>\<open>FileConfigReader\<close>).
  A Python \<^verbatim>\<open>str\<close> is a \<^typ>\<open>string\<close> holding the UTF-8 bytes of the text. Every
  string operation of the source that takes a pattern (\<^verbatim>\<open>split('=', 1)\<close>,
  \<^verbatim>\<open>startswith('#')\<close>, \<^verbatim>\<open>count(os.sep)\<close>, \<^verbatim>\<open>rstrip(os.sep)\<close>) takes an ASCII one, and an
  ASCII byte never occurs inside a multi-byte UTF-8 sequence, so these operations are the
  same on bytes as on code points; so is the order of two strings. \<^verbatim>\<open>os.sep\<close> is the
  POSIX separator.
\<close>

datatype py_error =
    FileNotFoundError string
  | KeyError string
  | ValueError string
  | TypeError
  | AttributeError
  | IsADirectoryError
  | UnicodeDecodeError
  | JSONDecodeError
  | CsvError

text \<open>
  What \<^verbatim>\<open>json.load\<close> and the loaders return: the source types it \<^verbatim>\<open>Any\<close>. A \<^verbatim>\<open>dict\<close>
  is an association list in insertion order with distinct keys.
\<close>

datatype pyval =
    PNone
  | PBool bool
  | PInt int
  | PFloat real
  | PStr string
  | PList "pyval list"
  | PDict "(string \<times> pyval) list"

text \<open>
  A regular file is seen through \<^verbatim>\<open>open(path, 'r', encoding='utf-8')\<close>: \<open>Utf8 t\<close> is a file
  whose bytes are the valid UTF-8 text \<open>t\<close>. \<open>Malformed pre r\<close> is a file whose bytes are not
  valid UTF-8: reading it raises the decoding error; the reader decodes chunk by chunk,
  and \<open>pre\<close> is the text, newlines translated, that it delivers before the chunk with the
  first invalid byte; \<open>r\<close> is what \<^verbatim>\<open>errors="replace"\<close> decodes the bytes to. The real number
  is the value of \<^verbatim>\<open>os.path.getmtime\<close>, of which the source only tests equality.
\<close>

datatype contents = Utf8 string | Malformed string string

datatype node =
    File real contents
  | Dir real "(string \<times> node) list"

text \<open>
  The snapshot: \<open>fs w p\<close> is the node the operating system resolves the path string \<open>p\<close>
  to (\<open>None\<close> when \<^verbatim>\<open>os.path.exists(p)\<close> is false). \<^verbatim>\<open>json.load\<close> and the \<^verbatim>\<open>csv\<close> readers are
  library code outside the repository; they are parameters of the snapshot, applied to
  the text of the file.
\<close>

record world =
  getcwd :: string
  fs :: "string \<Rightarrow> node option"
  json_loads :: "string \<Rightarrow> py_error + pyval"
  csv_rows :: "string \<Rightarrow> py_error + pyval"

definition exists_path :: "world \<Rightarrow> string \<Rightarrow> bool" where
  "exists_path w p = (fs w p \<noteq> None)"

fun node_mtime :: "node \<Rightarrow> real" where
  "node_mtime (File m _) = m"
| "node_mtime (Dir m _) = m"

text \<open>\<^verbatim>\<open>os.path.getmtime\<close> raises on a path that does not exist.\<close>

definition getmtime :: "world \<Rightarrow> string \<Rightarrow> py_error + real" where
  "getmtime w p =
     (case fs w p of None \<Rightarrow> Inl (FileNotFoundError p) | Some n \<Rightarrow> Inr (node_mtime n))"

section \<open>String operations of the Python library\<close>

definition sep :: char where
  "sep = CHR ''/''"

text \<open>\<^verbatim>\<open>s.join(xs)\<close>\<close>

fun str_join :: "string \<Rightarrow> string list \<Rightarrow> string" where
  "str_join s [] = []"
| "str_join s [x] = x"
| "str_join s (x # y # ys) = x @ s @ str_join s (y # ys)"

text \<open>\<^verbatim>\<open>s.split(c)\<close> for a one-character separator: never empty.\<close>

fun str_split :: "char \<Rightarrow> string \<Rightarrow> string list" where
  "str_split c [] = [[]]"
| "str_split c (x # xs) =
     (if x = c then [] # str_split c xs
      else (case str_split c xs of [] \<Rightarrow> [[x]] | p # ps \<Rightarrow> (x # p) # ps))"

text \<open>\<^verbatim>\<open>s.split(c, 1)\<close>: one element when \<open>c\<close> does not occur, two otherwise.\<close>

definition str_split1 :: "char \<Rightarrow> string \<Rightarrow> string list" where
  "str_split1 c s =
     (if c \<in> set s then [takeWhile (\<lambda>x. x \<noteq> c) s, tl (dropWhile (\<lambda>x. x \<noteq> c) s)] else [s])"

text \<open>\<^verbatim>\<open>s.lstrip(c)\<close>, \<^verbatim>\<open>s.rstrip(c)\<close> and \<^verbatim>\<open>s.strip(c)\<close> for a one-character set.\<close>

definition lstrip_char :: "char \<Rightarrow> string \<Rightarrow> string" where
  "lstrip_char c s = dropWhile (\<lambda>x. x = c) s"

definition rstrip_char :: "char \<Rightarrow> string \<Rightarrow> string" where
  "rstrip_char c s = rev (dropWhile (\<lambda>x. x = c) (rev s))"

definition strip_char :: "char \<Rightarrow> string \<Rightarrow> string" where
  "strip_char c s = rstrip_char c (lstrip_char c s)"

text \<open>
  \<^verbatim>\<open>s.strip()\<close> removes the characters for which \<^verbatim>\<open>str.isspace\<close> holds. Their UTF-8
  encodings: U+0009..U+000D, U+001C..U+0020, U+0085, U+00A0, U+1680, U+2000..U+200A,
  U+2028, U+2029, U+202F, U+205F, U+3000. A lead byte is never a continuation byte, so
  matching an encoding at either end of a valid UTF-8 text matches a whole character.
\<close>

definition whitespace :: "string list" where
  "whitespace =
     map (\<lambda>c. [c]) [CHR 0x09, CHR 0x0A, CHR 0x0B, CHR 0x0C, CHR 0x0D,
                     CHR 0x1C, CHR 0x1D, CHR 0x1E, CHR 0x1F, CHR 0x20]
     @ [[CHR 0xC2, CHR 0x85], [CHR 0xC2, CHR 0xA0], [CHR 0xE1, CHR 0x9A, CHR 0x80]]
     @ map (\<lambda>c. [CHR 0xE2, CHR 0x80, c])
         [CHR 0x80, CHR 0x81, CHR 0x82, CHR 0x83, CHR 0x84, CHR 0x85, CHR 0x86, CHR 0x87,
          CHR 0x88, CHR 0x89, CHR 0x8A, CHR 0xA8, CHR 0xA9, CHR 0xAF]
     @ [[CHR 0xE2, CHR 0x81, CHR 0x9F], [CHR 0xE3, CHR 0x80, CHR 0x80]]"

text \<open>Drop leading units of \<open>us\<close>; the fuel is the length of the string, which suffices.\<close>

fun drop_units :: "nat \<Rightarrow> string list \<Rightarrow> string \<Rightarrow> string" where
  "drop_units 0 us s = s"
| "drop_units (Suc n) us s =
     (case List.find (\<lambda>u. u \<noteq> [] \<and> prefix u s) us of
        None \<Rightarrow> s
      | Some u \<Rightarrow> drop_units n us (drop (length u) s))"

definition lstrip :: "string \<Rightarrow> string" where
  "lstrip s = drop_units (length s) whitespace s"

definition rstrip :: "string \<Rightarrow> string" where
  "rstrip s = rev (drop_units (length s) (map rev whitespace) (rev s))"

definition strip :: "string \<Rightarrow> string" where
  "strip s = rstrip (lstrip s)"

text \<open>
  Text mode with the default \<^verbatim>\<open>newline=None\<close>: \<^verbatim>\<open>\r\n\<close> and \<^verbatim>\<open>\r\<close> are read as \<^verbatim>\<open>\n\<close>,
  and iterating the file yields the lines with their terminator.
\<close>

fun universal_newlines :: "string \<Rightarrow> string" where
  "universal_newlines [] = []"
| "universal_newlines [c] = [if c = CHR 0x0D then CHR 0x0A else c]"
| "universal_newlines (c # d # cs) =
     (if c = CHR 0x0D \<and> d = CHR 0x0A then CHR 0x0A # universal_newlines cs
      else if c = CHR 0x0D then CHR 0x0A # universal_newlines (d # cs)
      else c # universal_newlines (d # cs))"

fun file_lines :: "string \<Rightarrow> string list" where
  "file_lines [] = []"
| "file_lines (c # cs) =
     (if c = CHR 0x0A then [c] # file_lines cs
      else (case file_lines cs of [] \<Rightarrow> [[c]] | l # ls \<Rightarrow> (c # l) # ls))"

text \<open>
  \<^verbatim>\<open>open(path, 'r', encoding='utf-8')\<close> followed by reading the file to its end: a missing
  file, a directory and undecodable bytes raise.
\<close>

definition read_text :: "world \<Rightarrow> string \<Rightarrow> py_error + string" where
  "read_text w p =
     (case fs w p of
        None \<Rightarrow> Inl (FileNotFoundError p)
      | Some (Dir _ _) \<Rightarrow> Inl IsADirectoryError
      | Some (File _ (Malformed _ _)) \<Rightarrow> Inl UnicodeDecodeError
      | Some (File _ (Utf8 t)) \<Rightarrow> Inr t)"

text \<open>
  \<^verbatim>\<open>for line in file\<close>: the lines the loop receives and the decoding error, if any, that
  ends the iteration after them. Of a file of malformed bytes the loop receives the
  complete lines of the text decoded before the failing chunk; the line left open there
  needs the failing chunk and is never delivered.
\<close>

definition iter_lines :: "world \<Rightarrow> string \<Rightarrow> py_error + (string list \<times> py_error option)" where
  "iter_lines w p =
     (case fs w p of
        None \<Rightarrow> Inl (FileNotFoundError p)
      | Some (Dir _ _) \<Rightarrow> Inl IsADirectoryError
      | Some (File _ (Malformed pre _)) \<Rightarrow>
          Inr (filter (suffix [CHR 0x0A]) (file_lines pre), Some UnicodeDecodeError)
      | Some (File _ (Utf8 t)) \<Rightarrow> Inr (file_lines (universal_newlines t), None))"

section \<open>The SQL decoder\<close>

text \<open>
  The loop of \<^verbatim>\<open>load_sql\<close> over the lines, with its two accumulators \<^verbatim>\<open>commands\<close> and
  \<^verbatim>\<open>current_command\<close>; the flush after the loop is the \<open>[]\<close> case. The body of the loop
  raises nothing, so a file of malformed bytes ends the call with the decoding error
  whichever chunk holds the invalid byte, as reading the file to its end does.
\<close>

fun sql_loop :: "string list \<Rightarrow> string list \<Rightarrow> string list \<Rightarrow> string list" where
  "sql_loop commands current_command [] =
     (if current_command \<noteq> [] then commands @ [strip (str_join '' '' current_command)]
      else commands)"
| "sql_loop commands current_command (raw # rest) =
     (let line = strip raw in
      if prefix ''--'' line \<or> line = [] then sql_loop commands current_command rest
      else if suffix '';'' line
        then sql_loop (commands @ [strip (str_join '' '' (current_command @ [line]))]) [] rest
        else sql_loop commands (current_command @ [line]) rest)"

definition load_sql :: "world \<Rightarrow> string \<Rightarrow> py_error + string list" where
  "load_sql w path =
     (if \<not> exists_path w path then Inl (FileNotFoundError (''SQL file not found: '' @ path))
      else (case read_text w path of
              Inl e \<Rightarrow> Inl e
            | Inr t \<Rightarrow> Inr (sql_loop [] [] (file_lines (universal_newlines t)))))"

section \<open>Paths: the functions of \<^verbatim>\<open>posixpath\<close> the source calls\<close>

text \<open>\<^verbatim>\<open>os.path.basename\<close>: what follows the last separator.\<close>

definition basename :: "string \<Rightarrow> string" where
  "basename p = rev (takeWhile (\<lambda>c. c \<noteq> sep) (rev p))"

text \<open>
  \<^verbatim>\<open>os.path.dirname\<close>: the head up to and including the last separator, its trailing
  separators removed unless it consists of separators only.
\<close>

definition dirname :: "string \<Rightarrow> string" where
  "dirname p =
     (let head = rev (dropWhile (\<lambda>c. c \<noteq> sep) (rev p))
      in if head \<noteq> [] \<and> head \<noteq> replicate (length head) sep then rstrip_char sep head else head)"

text \<open>\<^verbatim>\<open>os.path.join(a, b)\<close>\<close>

definition path_join :: "string \<Rightarrow> string \<Rightarrow> string" where
  "path_join a b =
     (if prefix [sep] b then b
      else if a = [] \<or> suffix [sep] a then a @ b
      else a @ [sep] @ b)"

text \<open>
  \<^verbatim>\<open>os.path.normpath\<close>: the loop over the components keeps \<^verbatim>\<open>new_comps\<close>; the flag says
  whether the path starts with a separator.
\<close>

fun normpath_comps :: "bool \<Rightarrow> string list \<Rightarrow> string list \<Rightarrow> string list" where
  "normpath_comps initial new_comps [] = new_comps"
| "normpath_comps initial new_comps (c # comps) =
     (if c = [] \<or> c = ''.'' then normpath_comps initial new_comps comps
      else if c \<noteq> ''..'' \<or> (\<not> initial \<and> new_comps = [])
                \<or> (new_comps \<noteq> [] \<and> last new_comps = ''..'')
        then normpath_comps initial (new_comps @ [c]) comps
      else if new_comps \<noteq> [] then normpath_comps initial (butlast new_comps) comps
      else normpath_comps initial new_comps comps)"

definition normpath :: "string \<Rightarrow> string" where
  "normpath path =
     (if path = [] then ''.''
      else
        let initial_slashes =
              (if prefix [sep] path
               then (if prefix [sep, sep] path \<and> \<not> prefix [sep, sep, sep] path then 2 else 1)
               else (0::nat));
            comps = normpath_comps (initial_slashes \<noteq> 0) [] (str_split sep path);
            p = replicate initial_slashes sep @ str_join [sep] comps
        in if p = [] then ''.'' else p)"

text \<open>\<^verbatim>\<open>os.path.abspath\<close> of a \<^verbatim>\<open>str\<close>.\<close>

definition abspath :: "world \<Rightarrow> string \<Rightarrow> string" where
  "abspath w path = normpath (if prefix [sep] path then path else path_join (getcwd w) path)"

section \<open>The tree indexer\<close>

text \<open>\<^verbatim>\<open>_depth\<close>\<close>

definition depth :: "string \<Rightarrow> int" where
  "depth rel_path =
     (let r = strip_char sep rel_path
      in if r = [] then 1 else int (count_list r sep) + 1)"

text \<open>
  \<^verbatim>\<open>os.walk(root_abs)\<close>, top-down: one pair per directory visited, the directory first and
  then each of its subdirectories in the order \<^verbatim>\<open>os.scandir\<close> lists them, which is the
  order of the entries of the node (symbolic links are not part of the snapshot). The
  first component is the list of directory names
  leading from the root to the directory, from which \<^verbatim>\<open>os.path.relpath(dirpath, root_abs)\<close>
  is computed; the second is \<^verbatim>\<open>filenames\<close>, the entries that are not directories. Walking
  a path that is not a directory yields nothing.
\<close>

fun nondirs :: "(string \<times> node) list \<Rightarrow> string list" where
  "nondirs [] = []"
| "nondirs ((n, File _ _) # es) = n # nondirs es"
| "nondirs ((n, Dir _ _) # es) = nondirs es"

fun walk :: "string list \<Rightarrow> (string \<times> node) list \<Rightarrow> (string list \<times> string list) list"
  and walk_dirs :: "string list \<Rightarrow> (string \<times> node) list \<Rightarrow> (string list \<times> string list) list"
where
  "walk ds es = (ds, nondirs es) # walk_dirs ds es"
| "walk_dirs ds [] = []"
| "walk_dirs ds ((n, File _ _) # es) = walk_dirs ds es"
| "walk_dirs ds ((n, Dir _ sub) # es) = walk (ds @ [n]) sub @ walk_dirs ds es"

fun os_walk :: "node \<Rightarrow> (string list \<times> string list) list" where
  "os_walk (File _ _) = []"
| "os_walk (Dir _ es) = walk [] es"

definition relpath :: "string list \<Rightarrow> string" where
  "relpath comps = (if comps = [] then ''.'' else str_join [sep] comps)"

text \<open>\<^verbatim>\<open>index.setdefault(filename, []).append(rel_path)\<close>\<close>

definition setdefault_append ::
  "(string \<Rightarrow> string list option) \<Rightarrow> string \<Rightarrow> string \<Rightarrow> (string \<Rightarrow> string list option)" where
  "setdefault_append index filename rel_path =
     index(filename \<mapsto> (case index filename of None \<Rightarrow> [] | Some paths \<Rightarrow> paths) @ [rel_path])"

text \<open>The body of the loop over \<^verbatim>\<open>os.walk\<close>, for one directory.\<close>

definition scan_dir ::
  "(string \<Rightarrow> string list option) \<Rightarrow> string list \<times> string list \<Rightarrow> (string \<Rightarrow> string list option)" where
  "scan_dir index d =
     (let rel_dir = relpath (fst d)
      in fold (\<lambda>filename idx.
                 setdefault_append idx filename
                   (if rel_dir = ''.'' then filename else normpath (path_join rel_dir filename)))
           (sort (snd d)) index)"

definition tree_scan :: "world \<Rightarrow> string \<Rightarrow> py_error + (string \<Rightarrow> string list option)" where
  "tree_scan w root_abs =
     (if root_abs = [] then Inl (ValueError ''Invalid root path provided for tree scan.'')
      else (case fs w root_abs of
              None \<Rightarrow> Inl (ValueError ''Invalid root path provided for tree scan.'')
            | Some root_node \<Rightarrow>
                let index = fold (\<lambda>d idx. scan_dir idx d) (os_walk root_node) Map.empty
                in Inr (\<lambda>fname. map_option (sort_key (\<lambda>p. (depth p, p))) (index fname))))"

text \<open>The test of line 194 of the source, on the raw line: a comment or a blank line.\<close>

definition sql_skipped :: "string \<Rightarrow> bool" where
  "sql_skipped raw = (prefix ''--'' (strip raw) \<or> strip raw = [])"

section \<open>The configuration loader\<close>

datatype ConfTypes = KEY_VALUE | JSON

text \<open>
  \<^verbatim>\<open>key in config\<close> for a string key: membership among the keys of a \<^verbatim>\<open>dict\<close>, among the
  elements of a \<^verbatim>\<open>list\<close>, substring of a \<^verbatim>\<open>str\<close>; the other values are not containers.
\<close>

fun py_contains :: "pyval \<Rightarrow> string \<Rightarrow> py_error + bool" where
  "py_contains (PDict kvs) k = Inr (k \<in> set (map fst kvs))"
| "py_contains (PList xs) k = Inr (PStr k \<in> set xs)"
| "py_contains (PStr s) k = Inr (sublist k s)"
| "py_contains _ k = Inl TypeError"

text \<open>\<^verbatim>\<open>[key for key in required_keys if key not in config]\<close>\<close>

fun missing_keys :: "pyval \<Rightarrow> string list \<Rightarrow> py_error + string list" where
  "missing_keys config [] = Inr []"
| "missing_keys config (key # keys) =
     (case py_contains config key of
        Inl e \<Rightarrow> Inl e
      | Inr present \<Rightarrow>
          (case missing_keys config keys of
             Inl e \<Rightarrow> Inl e
           | Inr ms \<Rightarrow> Inr (if present then ms else key # ms)))"

text \<open>
  The required-key validation that ends \<^verbatim>\<open>load_json\<close> and \<^verbatim>\<open>load_config\<close>; the two differ
  in the message only.
\<close>

definition check_required :: "string \<Rightarrow> string list option \<Rightarrow> pyval \<Rightarrow> py_error + pyval" where
  "check_required msg required_keys config =
     (case required_keys of
        None \<Rightarrow> Inr config
      | Some keys \<Rightarrow>
          if keys = [] then Inr config
          else (case missing_keys config keys of
                  Inl e \<Rightarrow> Inl e
                | Inr ms \<Rightarrow>
                    if ms \<noteq> [] then Inl (KeyError (msg @ str_join '', '' ms))
                    else Inr config))"

definition load_json :: "world \<Rightarrow> string \<Rightarrow> string list option \<Rightarrow> py_error + pyval" where
  "load_json w path required_keys =
     (if \<not> exists_path w path then Inl (FileNotFoundError (''JSON file not found: '' @ path))
      else (case read_text w path of
              Inl e \<Rightarrow> Inl e
            | Inr t \<Rightarrow>
                (case json_loads w (universal_newlines t) of
                   Inl e \<Rightarrow> Inl e
                 | Inr config \<Rightarrow> check_required ''Missing required JSON keys: '' required_keys config)))"

text \<open>\<^verbatim>\<open>config[k] = v\<close> on a \<^verbatim>\<open>dict\<close>: a present key keeps its place.\<close>

fun dict_set :: "(string \<times> pyval) list \<Rightarrow> string \<Rightarrow> pyval \<Rightarrow> (string \<times> pyval) list" where
  "dict_set [] k v = [(k, v)]"
| "dict_set (kv # kvs) k v = (if fst kv = k then (k, v) # kvs else kv # dict_set kvs k v)"

text \<open>
  The loop of \<^verbatim>\<open>load_config\<close> over the lines of a key-value file.
  \<^verbatim>\<open>key, value = line.split('=', 1)\<close> unpacks a list of two; Python raises \<^verbatim>\<open>ValueError\<close>
  on a list of one.
\<close>

fun key_value_loop :: "(string \<times> pyval) list \<Rightarrow> string list \<Rightarrow> py_error + (string \<times> pyval) list" where
  "key_value_loop config [] = Inr config"
| "key_value_loop config (raw # rest) =
     (let line = strip raw in
      if line \<noteq> [] \<and> \<not> prefix ''#'' line then
        (case str_split1 (CHR ''='') line of
           [key, val] \<Rightarrow> key_value_loop (dict_set config (strip key) (PStr (strip val))) rest
         | _ \<Rightarrow> Inl (ValueError ''not enough values to unpack (expected 2, got 1)''))
      else key_value_loop config rest)"

text \<open>
  \<^verbatim>\<open>load_config\<close>. The \<^verbatim>\<open>else\<close> branch of line 173 (\<^verbatim>\<open>"Unsupported configuration type"\<close>)
  needs a \<^verbatim>\<open>conf_type\<close> outside the enumeration and has no counterpart here. The loop
  parses the lines as the file delivers them: on a file of malformed bytes a line
  without \<^verbatim>\<open>=\<close> delivered before the failing chunk raises first, and otherwise the
  decoding error ends the loop.
\<close>

definition load_config :: "world \<Rightarrow> string \<Rightarrow> ConfTypes \<Rightarrow> string list option \<Rightarrow> py_error + pyval" where
  "load_config w path conf_type required_keys =
     (if \<not> exists_path w path
      then Inl (FileNotFoundError (''Configuration file not found: '' @ path))
      else (case conf_type of
              JSON \<Rightarrow> load_json w path required_keys
            | KEY_VALUE \<Rightarrow>
                (case iter_lines w path of
                   Inl e \<Rightarrow> Inl e
                 | Inr (ls, pending) \<Rightarrow>
                     (case key_value_loop [] ls of
                        Inl e \<Rightarrow> Inl e
                      | Inr config \<Rightarrow>
                          (case pending of
                             Some e \<Rightarrow> Inl e
                           | None \<Rightarrow>
                               check_required ''Missing required configuration keys: ''
                                 required_keys (PDict config))))))"

text \<open>
  \<^verbatim>\<open>load_csv(path)\<close> with its default arguments, as \<^verbatim>\<open>find\<close> calls it: the file is opened
  with \<^verbatim>\<open>newline=""\<close> and read to its end, and the rows are what the \<^verbatim>\<open>csv\<close> module
  makes of the text.
\<close>

definition load_csv :: "world \<Rightarrow> string \<Rightarrow> py_error + pyval" where
  "load_csv w path =
     (if \<not> exists_path w path then Inl (FileNotFoundError (''CSV file not found: '' @ path))
      else (case read_text w path of Inl e \<Rightarrow> Inl e | Inr t \<Rightarrow> csv_rows w t))"

section \<open>The cache layer\<close>

text \<open>
  The two class attributes \<^verbatim>\<open>_config_cache\<close> and \<^verbatim>\<open>_tree_cache\<close>. An entry of the first
  is the pair of \<^verbatim>\<open>"mtime"\<close> and \<^verbatim>\<open>"config"\<close>. Every method that can reach the class takes
  the caches and returns them.
\<close>

record caches =
  config_cache :: "string \<times> ConfTypes \<Rightarrow> (real \<times> pyval) option"
  tree_cache :: "string \<Rightarrow> (string \<Rightarrow> string list option) option"

definition get_config ::
  "world \<Rightarrow> caches \<Rightarrow> string \<Rightarrow> ConfTypes \<Rightarrow> string list option \<Rightarrow> (py_error + pyval) \<times> caches" where
  "get_config w c path conf_type required_keys =
     (if \<not> exists_path w path
      then (Inl (FileNotFoundError (''Configuration file not found: '' @ path)), c)
      else
        (case getmtime w path of
           Inl e \<Rightarrow> (Inl e, c)
         | Inr mtime \<Rightarrow>
             let key = (path, conf_type);
                 load = (case load_config w path conf_type required_keys of
                           Inl e \<Rightarrow> (Inl e, c)
                         | Inr config \<Rightarrow>
                             (Inr config,
                              c\<lparr>config_cache := (config_cache c)(key \<mapsto> (mtime, config))\<rparr>))
             in (case config_cache c key of
                   None \<Rightarrow> load
                 | Some entry \<Rightarrow> if fst entry = mtime then (Inr (snd entry), c) else load)))"

definition get_tree ::
  "world \<Rightarrow> caches \<Rightarrow> string \<Rightarrow> (py_error + (string \<Rightarrow> string list option)) \<times> caches" where
  "get_tree w c root_abs =
     (case tree_cache c root_abs of
        Some tree \<Rightarrow> (Inr tree, c)
      | None \<Rightarrow>
          (case tree_scan w root_abs of
             Inl e \<Rightarrow> (Inl e, c)
           | Inr tree \<Rightarrow> (Inr tree, c\<lparr>tree_cache := (tree_cache c)(root_abs \<mapsto> tree)\<rparr>)))"

definition invalidate_caches :: "world \<Rightarrow> caches \<Rightarrow> string option \<Rightarrow> string option \<Rightarrow> caches" where
  "invalidate_caches w c config_path root_arg =
     (if config_path = None \<and> root_arg = None
      then c\<lparr>config_cache := Map.empty, tree_cache := Map.empty\<rparr>
      else
        let c1 = (case config_path of
                    None \<Rightarrow> c
                  | Some p \<Rightarrow>
                      c\<lparr>config_cache := (\<lambda>key. if fst key = p then None else config_cache c key)\<rparr>)
        in (case root_arg of
              None \<Rightarrow> c1
            | Some r \<Rightarrow> c1\<lparr>tree_cache := (tree_cache c1)(abspath w r := None)\<rparr>))"

section \<open>The reader facade\<close>

record facade =
  self_config :: pyval
  self_root :: string
  self_tree :: "string \<Rightarrow> string list option"

text \<open>Truth value of a Python object, as \<^verbatim>\<open>not root\<close> tests it.\<close>

fun truthy :: "pyval \<Rightarrow> bool" where
  "truthy PNone = False"
| "truthy (PBool b) = b"
| "truthy (PInt i) = (i \<noteq> 0)"
| "truthy (PFloat x) = (x \<noteq> 0)"
| "truthy (PStr s) = (s \<noteq> [])"
| "truthy (PList xs) = (xs \<noteq> [])"
| "truthy (PDict kvs) = (kvs \<noteq> [])"

text \<open>\<^verbatim>\<open>config.get(k, None)\<close>: only a \<^verbatim>\<open>dict\<close> has the method.\<close>

fun dict_get :: "pyval \<Rightarrow> string \<Rightarrow> py_error + pyval" where
  "dict_get (PDict kvs) k = Inr (case map_of kvs k of None \<Rightarrow> PNone | Some v \<Rightarrow> v)"
| "dict_get _ k = Inl AttributeError"

text \<open>\<^verbatim>\<open>os.path.abspath\<close> of any object: only a \<^verbatim>\<open>str\<close> is a path.\<close>

fun abspath_of :: "world \<Rightarrow> pyval \<Rightarrow> py_error + string" where
  "abspath_of w (PStr s) = Inr (abspath w s)"
| "abspath_of w _ = Inl TypeError"

text \<open>\<^verbatim>\<open>FileConfigReader.__init__\<close>\<close>

definition init ::
  "world \<Rightarrow> caches \<Rightarrow> string \<Rightarrow> ConfTypes \<Rightarrow> string list option \<Rightarrow> bool \<Rightarrow> (py_error + facade) \<times> caches" where
  "init w c config_path conf_type required_keys force_refresh =
     (let c0 = (if force_refresh then invalidate_caches w c (Some config_path) None else c)
      in case get_config w c0 config_path conf_type required_keys of
           (Inl e, c1) \<Rightarrow> (Inl e, c1)
         | (Inr cfg, c1) \<Rightarrow>
             (case dict_get cfg ''root'' of
                Inl e \<Rightarrow> (Inl e, c1)
              | Inr r \<Rightarrow>
                  if \<not> truthy r then (Inl (KeyError ''Missing 'root' in configuration.''), c1)
                  else (case abspath_of w r of
                          Inl e \<Rightarrow> (Inl e, c1)
                        | Inr root_abs \<Rightarrow>
                            (case get_tree w c1 root_abs of
                               (Inl e, c2) \<Rightarrow> (Inl e, c2)
                             | (Inr t, c2) \<Rightarrow>
                                 (Inr \<lparr>self_config = cfg, self_root = root_abs, self_tree = t\<rparr>, c2)))))"

section \<open>The lookup resolver\<close>

definition quoted :: "string \<Rightarrow> string" where
  "quoted s = [CHR 0x27] @ s @ [CHR 0x27]"

text \<open>Lines 99 to 105 of \<^verbatim>\<open>find\<close>: the scope of the search.\<close>

definition effective_start :: "string \<Rightarrow> string option \<Rightarrow> string" where
  "effective_start name start =
     (let name_norm = normpath name;
          path_hint = dirname name_norm;
          start_or_empty = (case start of None \<Rightarrow> [] | Some s \<Rightarrow> s)
      in if start_or_empty \<noteq> [] \<or> path_hint \<noteq> []
         then normpath (path_join start_or_empty path_hint) else [])"

text \<open>The test of line 117 on one candidate.\<close>

definition under_prefix :: "string \<Rightarrow> string \<Rightarrow> bool" where
  "under_prefix pre rp = (rp = pre \<or> prefix (pre @ [sep]) rp)"

text \<open>
  Lines 96 to 123 of \<^verbatim>\<open>find\<close>: the relative path selected. The loop with \<^verbatim>\<open>break\<close> is
  the search for the first candidate passing the test.
\<close>

definition find_rel_path :: "facade \<Rightarrow> string \<Rightarrow> string option \<Rightarrow> py_error + string" where
  "find_rel_path self name start =
     (if name = [] then Inl (ValueError ''name must be provided.'')
      else
        let name_norm = normpath name;
            base = basename name_norm;
            scope = effective_start name start;
            not_under_root =
              FileNotFoundError (quoted name @ '' not found under root '' @ quoted (self_root self) @ ''.'')
        in case self_tree self base of
             None \<Rightarrow> Inl not_under_root
           | Some [] \<Rightarrow> Inl not_under_root
           | Some (cand # cands) \<Rightarrow>
               if scope = [] \<or> scope = ''.'' then Inr cand
               else
                 (case List.find (under_prefix (rstrip_char sep scope)) (cand # cands) of
                    Some rp \<Rightarrow> Inr rp
                  | None \<Rightarrow>
                      Inl (FileNotFoundError
                             (quoted name @ '' not found under scope '' @ quoted scope
                              @ '' (root '' @ quoted (self_root self) @ '').''))))"

text \<open>
  \<^verbatim>\<open>os.path.splitext(p)[1]\<close>: from the last dot of the base name, unless only dots come
  before it.
\<close>

definition splitext_ext :: "string \<Rightarrow> string" where
  "splitext_ext p =
     (let b = basename p;
          stem = rev (tl (dropWhile (\<lambda>c. c \<noteq> CHR ''.'') (rev b)))
      in if CHR ''.'' \<in> set b \<and> (\<exists>c \<in> set stem. c \<noteq> CHR ''.'')
         then CHR ''.'' # rev (takeWhile (\<lambda>c. c \<noteq> CHR ''.'') (rev b)) else [])"

text \<open>
  \<^verbatim>\<open>ext.lower()\<close>, on the ASCII letters: no other character lowers to a letter of the four
  extensions compared with.
\<close>

definition ascii_lower :: "string \<Rightarrow> string" where
  "ascii_lower s =
     map (\<lambda>c. if CHR ''A'' \<le> c \<and> c \<le> CHR ''Z'' then char_of (of_char c + (32::nat)) else c) s"

text \<open>The final read of \<^verbatim>\<open>find\<close>, with \<^verbatim>\<open>errors="replace"\<close>.\<close>

definition read_replace :: "world \<Rightarrow> string \<Rightarrow> py_error + string" where
  "read_replace w p =
     (case fs w p of
        None \<Rightarrow> Inl (FileNotFoundError p)
      | Some (Dir _ _) \<Rightarrow> Inl IsADirectoryError
      | Some (File _ (Malformed _ r)) \<Rightarrow> Inr (universal_newlines r)
      | Some (File _ (Utf8 t)) \<Rightarrow> Inr (universal_newlines t))"

text \<open>\<^verbatim>\<open>find\<close>. It reads \<^verbatim>\<open>self.tree\<close> and calls static loaders: the caches come back as
  they went in.\<close>

definition find_fcr ::
  "world \<Rightarrow> caches \<Rightarrow> facade \<Rightarrow> string \<Rightarrow> string option \<Rightarrow> bool \<Rightarrow> (py_error + pyval) \<times> caches" where
  "find_fcr w c self name start parse_known_types =
     (case find_rel_path self name start of
        Inl e \<Rightarrow> (Inl e, c)
      | Inr rel_path \<Rightarrow>
          let full_path = path_join (self_root self) rel_path;
              ext = ascii_lower (splitext_ext full_path)
          in if parse_known_types \<and> ext = ''.json''
               then (case read_text w full_path of
                       Inl e \<Rightarrow> (Inl e, c)
                     | Inr t \<Rightarrow> (json_loads w (universal_newlines t), c))
             else if parse_known_types \<and> ext = ''.conf''
               then (load_config w full_path KEY_VALUE None, c)
             else if parse_known_types \<and> ext = ''.sql''
               then (case load_sql w full_path of
                       Inl e \<Rightarrow> (Inl e, c)
                     | Inr cmds \<Rightarrow> (Inr (PList (map PStr cmds)), c))
             else if parse_known_types \<and> ext = ''.csv''
               then (load_csv w full_path, c)
             else (case read_replace w full_path of
                     Inl e \<Rightarrow> (Inl e, c)
                   | Inr t \<Rightarrow> (Inr (PStr t), c)))"

section \<open>A snapshot to run the definitions on\<close>

text \<open>
  Three key-value files (a bootstrap file naming the root, one without \<^verbatim>\<open>root\<close>, one with
  a line that has no \<^verbatim>\<open>=\<close>), a JSON file whose \<^verbatim>\<open>root\<close> is a number, and the root
  directory with \<^verbatim>\<open>x.txt\<close> at four places. The JSON reader is given on the one text used.
\<close>

definition example_tree :: "(string \<times> node) list" where
  "example_tree =
     [(''b'', Dir 7 [(''x.txt'', File 7 (Utf8 ''in b''))]),
      (''x.txt'', File 7 (Utf8 ''top'')),
      (''a'', Dir 7 [(''x.txt'', File 7 (Utf8 ''in a'')),
                     (''sub'', Dir 7 [(''x.txt'', File 7 (Utf8 ''deep'')),
                                      (''q.sql'', File 7 (Utf8 ''SELECT 1;''))])]),
      (''app.conf'', File 7 (Utf8 ''k = v''))]"

definition example_json_text :: string where
  "example_json_text = ''{'' @ [CHR 0x22] @ ''root'' @ [CHR 0x22] @ '': 5}''"

definition example_fs :: "string \<Rightarrow> node option" where
  "example_fs p =
     (if p = ''/etc/app.conf''
        then Some (File 1 (Utf8 (''# bootstrap'' @ [CHR 0x0A] @ ''root = /srv/data'' @ [CHR 0x0A])))
      else if p = ''/etc/noroot.conf'' then Some (File 1 (Utf8 (''a=1'' @ [CHR 0x0A])))
      else if p = ''/etc/bad.conf''
        then Some (File 1 (Utf8 (''a=1'' @ [CHR 0x0A] @ ''novalue'' @ [CHR 0x0A])))
      else if p = ''/etc/app.json'' then Some (File 2 (Utf8 example_json_text))
      else if p = ''/srv/data'' then Some (Dir 7 example_tree)
      else None)"

definition example_json :: "string \<Rightarrow> py_error + pyval" where
  "example_json s =
     (if s = example_json_text then Inr (PDict [(''root'', PInt 5)]) else Inl JSONDecodeError)"

definition example_world :: world where
  "example_world =
     \<lparr>getcwd = ''/home/u'', fs = example_fs, json_loads = example_json,
      csv_rows = (\<lambda>t. Inl CsvError)\<rparr>"

text \<open>The exception a call raised, if it raised one.\<close>

definition raised :: "'e + 'a \<Rightarrow> 'e option" where
  "raised r = (case r of Inl e \<Rightarrow> Some e | Inr v \<Rightarrow> None)"

definition empty_caches :: caches where
  "empty_caches = \<lparr>config_cache = Map.empty, tree_cache = Map.empty\<rparr>"

text \<open>
  The config cache after the bootstrap file was loaded once, and the snapshot after the
  file was rewritten with its modification time kept.
\<close>

definition warm_caches :: caches where
  "warm_caches =
     empty_caches\<lparr>config_cache :=
       (config_cache empty_caches)((''/etc/app.conf'', KEY_VALUE) \<mapsto>
          (1, PDict [(''root'', PStr ''/srv/data'')]))\<rparr>"

definition edited_world :: world where
  "edited_world =
     example_world\<lparr>fs := (fs example_world)(''/etc/app.conf'' \<mapsto>
       File 1 (Utf8 (''root = /srv/other'' @ [CHR 0x0A])))\<rparr>"

section \<open>The specification's side of the tree index\<close>

text \<open>
  A name as a directory lists it: not empty, without separator, neither \<^verbatim>\<open>.\<close> nor \<^verbatim>\<open>..\<close>.
  Every entry of a real directory has such a name; \<open>valid_names\<close> says so of a whole tree.
\<close>

definition valid_name :: "string \<Rightarrow> bool" where
  "valid_name n = (n \<noteq> [] \<and> sep \<notin> set n \<and> n \<noteq> ''.'' \<and> n \<noteq> ''..'')"

fun valid_names :: "(string \<times> node) list \<Rightarrow> bool" where
  "valid_names [] = True"
| "valid_names ((n, File _ _) # es) = (valid_name n \<and> valid_names es)"
| "valid_names ((n, Dir _ sub) # es) = (valid_name n \<and> valid_names sub \<and> valid_names es)"

text \<open>
  The files under a directory, each as the list of names leading to it from the
  directory; the relative path of a file is that list joined by the separator, and the
  last name is its base filename.
\<close>

fun files_under :: "(string \<times> node) list \<Rightarrow> string list list" where
  "files_under [] = []"
| "files_under ((n, File _ _) # es) = [n] # files_under es"
| "files_under ((n, Dir _ sub) # es) = map ((#) n) (files_under sub) @ files_under es"

definition rel_path_of :: "string list \<Rightarrow> string" where
  "rel_path_of names = str_join [sep] names"

text \<open>
  The order of the specification on relative paths: ascending depth, then ascending
  lexicographic comparison of the path strings.
\<close>

definition depth_lex_le :: "string \<Rightarrow> string \<Rightarrow> bool" where
  "depth_lex_le p q = (depth p < depth q \<or> (depth p = depth q \<and> p \<le> q))"

text \<open>
  The pairs of filename and relative path that the body of the loop of \<open>tree_scan\<close>
  appends for one directory, in order.
\<close>

definition scan_pairs :: "string list \<times> string list \<Rightarrow> (string \<times> string) list" where
  "scan_pairs d =
     map (\<lambda>filename.
            (filename,
             if relpath (fst d) = ''.'' then filename
             else normpath (path_join (relpath (fst d)) filename)))
       (sort (snd d))"

text \<open>The snapshot with one more file, an SQL file of the given text.\<close>

definition sql_world :: "string \<Rightarrow> world" where
  "sql_world t = example_world\<lparr>fs := (fs example_world)(''/srv/q.sql'' \<mapsto> File 7 (Utf8 t))\<rparr>"

text \<open>A facade over the root of the snapshot, as the constructor builds it.\<close>

definition example_facade :: facade where
  "example_facade =
     \<lparr>self_config = PDict [(''root'', PStr ''/srv/data'')],
      self_root = ''/srv/data'',
      self_tree = (case tree_scan example_world ''/srv/data'' of
                     Inl e \<Rightarrow> Map.empty
                   | Inr index \<Rightarrow> index)\<rparr>"

section \<open>Properties of the string operations\<close>

text \<open>The fuel of \<open>drop_units\<close> is enough: no unit is left at the front of the result.\<close>

lemma drop_units_fuel:
  "length s \<le> n \<Longrightarrow> List.find (\<lambda>u. u \<noteq> [] \<and> prefix u (drop_units n us s)) us = None"
proof (induction n arbitrary: s)
  case 0
  then show ?case by (simp add: find_None_iff)
next
  case (Suc n)
  show ?case
  proof (cases "List.find (\<lambda>u. u \<noteq> [] \<and> prefix u s) us")
    case None
    then show ?thesis by simp
  next
    case (Some u)
    then have "u \<noteq> []" "prefix u s" by (auto simp: find_Some_iff)
    then have "length u \<le> length s" by (simp add: prefix_length_le)
    with Suc.prems \<open>u \<noteq> []\<close> have "length (drop (length u) s) \<le> n" by (cases u) auto
    from Suc.IH [OF this] Some show ?thesis by simp
  qed
qed

lemma lstrip_done: "List.find (\<lambda>u. u \<noteq> [] \<and> prefix u (lstrip s)) whitespace = None"
  unfolding lstrip_def by (rule drop_units_fuel) simp

section \<open>Properties of the SQL decoder\<close>

lemma sql_loop_skip:
  "sql_loop cs cur (filter (\<lambda>l. \<not> sql_skipped l) ls) = sql_loop cs cur ls"
  by (induction ls arbitrary: cs cur) (auto simp: sql_skipped_def Let_def)

lemma sql_loop_statement:
  assumes "\<forall>x \<in> set ls. \<not> sql_skipped x \<and> \<not> suffix '';'' (strip x)"
    and "\<not> sql_skipped l" and "suffix '';'' (strip l)"
  shows "sql_loop cs cur (ls @ l # rest)
         = sql_loop (cs @ [strip (str_join '' '' (cur @ map strip (ls @ [l])))]) [] rest"
  using assms by (induction ls arbitrary: cur) (auto simp: sql_skipped_def Let_def)

text \<open>
  Claim C8, amended. The decoder works line by line. The file of the three lines
  \<^verbatim>\<open>-- comment\<close>, \<^verbatim>\<open>SELECT 1;\<close> and \<^verbatim>\<open>INSERT INTO t VALUES (1);\<close> decodes to the two
  statements. Removing the lines whose stripped text starts with \<^verbatim>\<open>--\<close> or is empty does
  not change what a file decodes to. A kept line whose stripped text does not end with a
  semicolon is added to the open statement and ends nothing, whatever it contains; a kept
  line whose stripped text ends with a semicolon ends the open statement, which is the
  stripped texts of its lines joined by one space; so kept lines of which only the last
  ends with a semicolon make one statement. At the end of the file a statement left open
  is emitted as it is.
\<close>

theorem load_sql_decodes:
  "load_sql (w\<lparr>fs := (fs w)(path \<mapsto> File m (Utf8 (''-- comment'' @ [CHR 0x0A] @ ''SELECT 1;''
        @ [CHR 0x0A] @ ''INSERT INTO t VALUES (1);'' @ [CHR 0x0A])))\<rparr>) path
     = Inr [''SELECT 1;'', ''INSERT INTO t VALUES (1);'']
   \<and> sql_loop cs cur (filter (\<lambda>l. \<not> sql_skipped l) ls) = sql_loop cs cur ls
   \<and> (\<not> sql_skipped l \<and> \<not> suffix '';'' (strip l)
        \<longrightarrow> sql_loop cs cur (l # rest) = sql_loop cs (cur @ [strip l]) rest)
   \<and> (\<not> sql_skipped l \<and> suffix '';'' (strip l)
        \<longrightarrow> sql_loop cs cur (l # rest)
            = sql_loop (cs @ [strip (str_join '' '' (cur @ [strip l]))]) [] rest)
   \<and> ((\<forall>x \<in> set ls. \<not> sql_skipped x \<and> \<not> suffix '';'' (strip x))
          \<and> \<not> sql_skipped l \<and> suffix '';'' (strip l)
        \<longrightarrow> sql_loop cs cur (ls @ l # rest)
            = sql_loop (cs @ [strip (str_join '' '' (cur @ map strip (ls @ [l])))]) [] rest)
   \<and> sql_loop cs cur [] = (if cur = [] then cs else cs @ [strip (str_join '' '' cur)])"
proof -
  have "sql_loop [] [] (file_lines (universal_newlines (''-- comment'' @ [CHR 0x0A]
          @ ''SELECT 1;'' @ [CHR 0x0A] @ ''INSERT INTO t VALUES (1);'' @ [CHR 0x0A])))
        = [''SELECT 1;'', ''INSERT INTO t VALUES (1);'']"
    by code_simp
  then have 1: "load_sql (w\<lparr>fs := (fs w)(path \<mapsto> File m (Utf8 (''-- comment'' @ [CHR 0x0A]
        @ ''SELECT 1;'' @ [CHR 0x0A] @ ''INSERT INTO t VALUES (1);'' @ [CHR 0x0A])))\<rparr>) path
     = Inr [''SELECT 1;'', ''INSERT INTO t VALUES (1);'']"
    by (simp add: load_sql_def exists_path_def read_text_def
          del: sql_loop.simps file_lines.simps universal_newlines.simps)
  have 3: "sql_loop cs cur (l # rest) = sql_loop cs (cur @ [strip l]) rest"
    if "\<not> sql_skipped l" "\<not> suffix '';'' (strip l)"
    using that by (simp add: sql_skipped_def Let_def)
  have 4: "sql_loop cs cur (l # rest)
            = sql_loop (cs @ [strip (str_join '' '' (cur @ [strip l]))]) [] rest"
    if "\<not> sql_skipped l" "suffix '';'' (strip l)"
    using that by (simp add: sql_skipped_def Let_def)
  have 6: "sql_loop cs cur [] = (if cur = [] then cs else cs @ [strip (str_join '' '' cur)])"
    by simp
  show ?thesis
    apply (rule conjI, rule 1)
    apply (rule conjI, rule sql_loop_skip)
    apply (rule conjI, rule impI, elim conjE, erule (1) 3)
    apply (rule conjI, rule impI, elim conjE, erule (1) 4)
    apply (rule conjI, rule impI, elim conjE, erule (2) sql_loop_statement)
    apply (rule 6)
    done
qed

theorem load_sql_decodes_witness:
  "\<not> sql_skipped (''  SELECT a'' @ [CHR 0x0A]) \<and> \<not> suffix '';'' (strip (''  SELECT a'' @ [CHR 0x0A]))
   \<and> \<not> sql_skipped (''FROM t'' @ [CHR 0x0D]) \<and> \<not> suffix '';'' (strip (''FROM t'' @ [CHR 0x0D]))
   \<and> \<not> sql_skipped (''WHERE b; '' @ [CHR 0x0A])
   \<and> suffix '';'' (strip (''WHERE b; '' @ [CHR 0x0A]))
   \<and> sql_loop [] [] ([''  SELECT a'' @ [CHR 0x0A], ''FROM t'' @ [CHR 0x0D]]
        @ (''WHERE b; '' @ [CHR 0x0A]) # [])
      = [''SELECT a FROM t WHERE b;'']
   \<and> \<not> sql_skipped ''SELECT 1; -- note'' \<and> \<not> suffix '';'' (strip ''SELECT 1; -- note'')
   \<and> sql_loop [] [] (''SELECT 1; -- note'' # []) = [''SELECT 1; -- note'']
   \<and> \<not> sql_skipped ''SELECT 1; SELECT 2;'' \<and> suffix '';'' (strip ''SELECT 1; SELECT 2;'')
   \<and> sql_loop [] [] (''SELECT 1; SELECT 2;'' # []) = [''SELECT 1; SELECT 2;'']"
proof -
  have h: "\<not> sql_skipped (''  SELECT a'' @ [CHR 0x0A]) \<and> \<not> suffix '';'' (strip (''  SELECT a'' @ [CHR 0x0A]))
   \<and> \<not> sql_skipped (''FROM t'' @ [CHR 0x0D]) \<and> \<not> suffix '';'' (strip (''FROM t'' @ [CHR 0x0D]))
   \<and> \<not> sql_skipped (''WHERE b; '' @ [CHR 0x0A])
   \<and> suffix '';'' (strip (''WHERE b; '' @ [CHR 0x0A]))"
    by code_simp
  then have h': "\<forall>x \<in> set [''  SELECT a'' @ [CHR 0x0A], ''FROM t'' @ [CHR 0x0D]].
      \<not> sql_skipped x \<and> \<not> suffix '';'' (strip x)"
    by simp
  have e: "sql_loop ([] @ [strip (str_join '' '' ([] @ map strip
             ([''  SELECT a'' @ [CHR 0x0A], ''FROM t'' @ [CHR 0x0D]] @ [''WHERE b; '' @ [CHR 0x0A]])))])
             [] []
           = [''SELECT a FROM t WHERE b;'']"
    by code_simp
  from load_sql_decodes [where cs = "[]" and cur = "[]"
        and ls = "[''  SELECT a'' @ [CHR 0x0A], ''FROM t'' @ [CHR 0x0D]]"
        and l = "''WHERE b; '' @ [CHR 0x0A]" and rest = "[]",
      THEN conjunct2, THEN conjunct2, THEN conjunct2, THEN conjunct2, THEN conjunct1] h h'
  have "sql_loop [] [] ([''  SELECT a'' @ [CHR 0x0A], ''FROM t'' @ [CHR 0x0D]]
          @ (''WHERE b; '' @ [CHR 0x0A]) # [])
        = sql_loop ([] @ [strip (str_join '' '' ([] @ map strip
            ([''  SELECT a'' @ [CHR 0x0A], ''FROM t'' @ [CHR 0x0D]] @ [''WHERE b; '' @ [CHR 0x0A]])))])
            [] []"
    by blast
  then have c: "sql_loop [] [] ([''  SELECT a'' @ [CHR 0x0A], ''FROM t'' @ [CHR 0x0D]]
                  @ (''WHERE b; '' @ [CHR 0x0A]) # [])
                = [''SELECT a FROM t WHERE b;'']"
    using e by (rule trans)
  have n: "\<not> sql_skipped ''SELECT 1; -- note''" "\<not> suffix '';'' (strip ''SELECT 1; -- note'')"
    and n': "sql_loop [] ([] @ [strip ''SELECT 1; -- note'']) [] = [''SELECT 1; -- note'']"
    and s: "\<not> sql_skipped ''SELECT 1; SELECT 2;''" "suffix '';'' (strip ''SELECT 1; SELECT 2;'')"
    and s': "sql_loop ([] @ [strip (str_join '' '' ([] @ [strip ''SELECT 1; SELECT 2;'']))]) [] []
             = [''SELECT 1; SELECT 2;'']"
    by code_simp+
  have "sql_loop [] [] (''SELECT 1; -- note'' # []) = sql_loop [] ([] @ [strip ''SELECT 1; -- note'']) []"
    by (rule load_sql_decodes [where cs = "[]" and cur = "[]" and l = "''SELECT 1; -- note''"
          and rest = "[]", THEN conjunct2, THEN conjunct2, THEN conjunct1, THEN mp, OF conjI, OF n])
  then have d: "sql_loop [] [] (''SELECT 1; -- note'' # []) = [''SELECT 1; -- note'']"
    using n' by (rule trans)
  have "sql_loop [] [] (''SELECT 1; SELECT 2;'' # [])
      = sql_loop ([] @ [strip (str_join '' '' ([] @ [strip ''SELECT 1; SELECT 2;'']))]) [] []"
    by (rule load_sql_decodes [where cs = "[]" and cur = "[]" and l = "''SELECT 1; SELECT 2;''"
          and rest = "[]", THEN conjunct2, THEN conjunct2, THEN conjunct2, THEN conjunct1, THEN mp,
          OF conjI, OF s])
  then have f: "sql_loop [] [] (''SELECT 1; SELECT 2;'' # []) = [''SELECT 1; SELECT 2;'']"
    using s' by (rule trans)
  from h c n d s f show ?thesis by blast
qed

text \<open>
  The claim as it stands fails: a semicolon inside a line, or before a trailing comment,
  ends no statement. The one line \<^verbatim>\<open>SELECT 1; SELECT 2;\<close> decodes to one statement, not
  two, and \<^verbatim>\<open>SELECT 1; -- note\<close> followed by \<^verbatim>\<open>SELECT 2;\<close> decodes to the one statement
  that holds the comment.
\<close>

theorem load_sql_semicolon_inside_line:
  "load_sql (sql_world ''SELECT 1; SELECT 2;'') ''/srv/q.sql'' = Inr [''SELECT 1; SELECT 2;'']
   \<and> load_sql (sql_world ''SELECT 1; SELECT 2;'') ''/srv/q.sql''
       \<noteq> Inr [''SELECT 1;'', ''SELECT 2;'']
   \<and> load_sql (sql_world (''SELECT 1; -- note'' @ [CHR 0x0A] @ ''SELECT 2;'' @ [CHR 0x0A]))
         ''/srv/q.sql''
       = Inr [''SELECT 1; -- note SELECT 2;'']"
  by code_simp

section \<open>Properties of the cache layer\<close>

text \<open>
  Claim C4. A lookup of \<open>(path, kind)\<close> in the config cache: when the path does not exist
  it fails with the file-not-found error and the caches stay as they are, whatever the
  cache holds; when the path exists and there is no entry, or the entry's modification
  time differs from the file's, the result is that of \<open>load_config\<close> with the required
  keys, and a successful parse replaces the entry by the parse and the file's
  modification time; when the entry's modification time is the file's, the cached parse
  is returned and the caches stay as they are, whatever the file now contains.
\<close>

theorem get_config_lookup:
  "(\<not> exists_path w path \<longrightarrow>
      get_config w c path kind rk
        = (Inl (FileNotFoundError (''Configuration file not found: '' @ path)), c))
   \<and> (exists_path w path \<longrightarrow> (\<exists>mt. getmtime w path = Inr mt))
   \<and> (getmtime w path = Inr mt
        \<and> (config_cache c (path, kind) = None
             \<or> (\<exists>m old. config_cache c (path, kind) = Some (m, old) \<and> m \<noteq> mt))
      \<longrightarrow> get_config w c path kind rk
          = (case load_config w path kind rk of
               Inl e \<Rightarrow> (Inl e, c)
             | Inr cfg \<Rightarrow>
                 (Inr cfg, c\<lparr>config_cache := (config_cache c)((path, kind) \<mapsto> (mt, cfg))\<rparr>)))
   \<and> (getmtime w path = Inr mt \<and> config_cache c (path, kind) = Some (mt, cached)
      \<longrightarrow> get_config w c path kind rk = (Inr cached, c))"
  by (auto simp: get_config_def getmtime_def exists_path_def Let_def split: sum.splits option.splits)

theorem get_config_lookup_witness:
  "\<not> exists_path example_world ''/etc/gone.conf''
   \<and> get_config example_world warm_caches ''/etc/gone.conf'' KEY_VALUE None
       = (Inl (FileNotFoundError (''Configuration file not found: '' @ ''/etc/gone.conf'')), warm_caches)
   \<and> getmtime example_world ''/etc/app.conf'' = Inr 1
   \<and> config_cache empty_caches (''/etc/app.conf'', KEY_VALUE) = None
   \<and> get_config example_world empty_caches ''/etc/app.conf'' KEY_VALUE (Some [''root''])
       = (Inr (PDict [(''root'', PStr ''/srv/data'')]), warm_caches)
   \<and> getmtime edited_world ''/etc/app.conf'' = Inr 1
   \<and> config_cache warm_caches (''/etc/app.conf'', KEY_VALUE)
       = Some (1, PDict [(''root'', PStr ''/srv/data'')])
   \<and> load_config edited_world ''/etc/app.conf'' KEY_VALUE None
       = Inr (PDict [(''root'', PStr ''/srv/other'')])
   \<and> get_config edited_world warm_caches ''/etc/app.conf'' KEY_VALUE None
       = (Inr (PDict [(''root'', PStr ''/srv/data'')]), warm_caches)"
proof -
  have a: "\<not> exists_path example_world ''/etc/gone.conf''"
    by code_simp
  have b: "getmtime example_world ''/etc/app.conf'' = Inr 1"
    and b': "config_cache empty_caches (''/etc/app.conf'', KEY_VALUE) = None"
    and l: "load_config example_world ''/etc/app.conf'' KEY_VALUE (Some [''root''])
            = Inr (PDict [(''root'', PStr ''/srv/data'')])"
    by code_simp+
  have d: "getmtime edited_world ''/etc/app.conf'' = Inr 1"
    and d': "config_cache warm_caches (''/etc/app.conf'', KEY_VALUE)
       = Some (1, PDict [(''root'', PStr ''/srv/data'')])"
    and d'': "load_config edited_world ''/etc/app.conf'' KEY_VALUE None
       = Inr (PDict [(''root'', PStr ''/srv/other'')])"
    by code_simp+
  have 1: "get_config example_world warm_caches ''/etc/gone.conf'' KEY_VALUE None
       = (Inl (FileNotFoundError (''Configuration file not found: '' @ ''/etc/gone.conf'')), warm_caches)"
    using get_config_lookup [where w = example_world and path = "''/etc/gone.conf''"
        and c = warm_caches and kind = KEY_VALUE and rk = None] a
    by blast
  have 2: "get_config example_world empty_caches ''/etc/app.conf'' KEY_VALUE (Some [''root''])
       = (Inr (PDict [(''root'', PStr ''/srv/data'')]), warm_caches)"
    using get_config_lookup [where w = example_world and path = "''/etc/app.conf''"
        and c = empty_caches and kind = KEY_VALUE and rk = "Some [''root'']" and mt = 1] b b'
    by (simp add: l warm_caches_def)
  have 3: "get_config edited_world warm_caches ''/etc/app.conf'' KEY_VALUE None
       = (Inr (PDict [(''root'', PStr ''/srv/data'')]), warm_caches)"
    using get_config_lookup [where w = edited_world and path = "''/etc/app.conf''"
        and c = warm_caches and kind = KEY_VALUE and rk = None and mt = 1] d d'
    by blast
  from a b b' d d' d'' 1 2 3 show ?thesis by blast
qed

lemma raised_iff: "raised r = Some e \<longleftrightarrow> r = Inl e"
  by (cases r) (simp_all add: raised_def)

lemma get_config_caches:
  assumes "get_config w c path kind rk = (r, c')"
  shows "c' = c \<or> (\<exists>cfg mt. r = Inr cfg \<and> load_config w path kind rk = Inr cfg
            \<and> getmtime w path = Inr mt
            \<and> c' = c\<lparr>config_cache := (config_cache c)((path, kind) \<mapsto> (mt, cfg))\<rparr>)"
proof (cases "load_config w path kind rk")
  case (Inl e)
  with assms show ?thesis
    by (auto simp: get_config_def Let_def split: if_splits option.splits sum.splits)
next
  case (Inr cfg)
  with assms show ?thesis
    by (cases "getmtime w path")
       (auto simp: get_config_def Let_def split: if_splits option.splits)
qed

lemma get_config_fail:
  "get_config w c path kind rk = (Inl e, c') \<Longrightarrow> c' = c"
  by (auto dest: get_config_caches)

lemma get_config_entry:
  assumes "get_config w c path kind rk = (Inr cfg, c')"
  shows "\<exists>mt. getmtime w path = Inr mt \<and> config_cache c' (path, kind) = Some (mt, cfg)"
  using assms
  by (cases "load_config w path kind rk"; cases "getmtime w path")
     (auto simp: get_config_def Let_def split: if_splits option.splits)

lemma get_tree_fail:
  "get_tree w c root_abs = (Inl e, c') \<Longrightarrow> c' = c"
  by (auto simp: get_tree_def split: option.splits sum.splits)

lemma get_tree_caches:
  "get_tree w c root_abs = (r, c') \<Longrightarrow> config_cache c' = config_cache c"
  by (auto simp: get_tree_def split: option.splits sum.splits)

lemma find_fcr_caches: "snd (find_fcr w c self name start p) = c"
  by (auto simp: find_fcr_def Let_def split: sum.splits)

lemma init_fail_caches:
  assumes "init w c path kind rk force = (Inl e, c')"
  shows "c' = snd (get_config w (if force then invalidate_caches w c (Some path) None else c) path kind rk)"
  using assms
  by (auto simp: init_def Let_def split: prod.splits sum.splits if_splits dest: get_tree_fail)

text \<open>
  Claim C9. When the entry of \<open>(path, kind)\<close> carries the file's modification time, the
  lookup returns the cached configuration and never validates the required keys: it
  succeeds also for required keys with which \<open>load_config\<close> on the same file raises the
  missing-key error. In particular, once a lookup has succeeded, a second lookup on the
  same snapshot succeeds for every list of required keys.
\<close>

theorem cache_hit_skips_validation:
  "(getmtime w path = Inr mt \<and> config_cache c (path, kind) = Some (mt, cached)
      \<and> load_config w path kind rk = Inl (KeyError msg)
     \<longrightarrow> get_config w c path kind rk = (Inr cached, c))
   \<and> (get_config w c path kind rk0 = (Inr cfg, c1) \<and> load_config w path kind rk = Inl (KeyError msg)
     \<longrightarrow> get_config w c1 path kind rk = (Inr cfg, c1))"
proof -
  have hit: "get_config w c path kind rk = (Inr cached, c)"
    if "getmtime w path = Inr mt" "config_cache c (path, kind) = Some (mt, cached)"
    for c cached mt
    using that by (auto simp: get_config_def getmtime_def exists_path_def Let_def split: option.splits)
  show ?thesis
    using hit get_config_entry by blast
qed

theorem cache_hit_skips_validation_witness:
  "load_config example_world ''/etc/noroot.conf'' KEY_VALUE (Some [''root''])
     = Inl (KeyError ''Missing required configuration keys: root'')
   \<and> fst (get_config example_world empty_caches ''/etc/noroot.conf'' KEY_VALUE None)
       = Inr (PDict [(''a'', PStr ''1'')])
   \<and> get_config example_world
        (snd (get_config example_world empty_caches ''/etc/noroot.conf'' KEY_VALUE None))
        ''/etc/noroot.conf'' KEY_VALUE (Some [''root''])
       = (Inr (PDict [(''a'', PStr ''1'')]),
          snd (get_config example_world empty_caches ''/etc/noroot.conf'' KEY_VALUE None))"
proof -
  have l: "load_config example_world ''/etc/noroot.conf'' KEY_VALUE (Some [''root''])
     = Inl (KeyError ''Missing required configuration keys: root'')"
    by code_simp
  have f: "fst (get_config example_world empty_caches ''/etc/noroot.conf'' KEY_VALUE None)
       = Inr (PDict [(''a'', PStr ''1'')])"
    by code_simp
  then have g: "get_config example_world empty_caches ''/etc/noroot.conf'' KEY_VALUE None
      = (Inr (PDict [(''a'', PStr ''1'')]),
         snd (get_config example_world empty_caches ''/etc/noroot.conf'' KEY_VALUE None))"
    by (simp add: prod_eq_iff)
  from cache_hit_skips_validation [where w = example_world and path = "''/etc/noroot.conf''"
      and kind = KEY_VALUE and rk = "Some [''root'']" and c = empty_caches and rk0 = None
      and msg = "''Missing required configuration keys: root''"
      and cfg = "PDict [(''a'', PStr ''1'')]"
      and ?c1.0 = "snd (get_config example_world empty_caches ''/etc/noroot.conf'' KEY_VALUE None)"] g l
  have "get_config example_world
        (snd (get_config example_world empty_caches ''/etc/noroot.conf'' KEY_VALUE None))
        ''/etc/noroot.conf'' KEY_VALUE (Some [''root''])
       = (Inr (PDict [(''a'', PStr ''1'')]),
          snd (get_config example_world empty_caches ''/etc/noroot.conf'' KEY_VALUE None))"
    by blast
  with l f show ?thesis by blast
qed

text \<open>
  Claim C6. \<open>invalidate_caches\<close> without arguments empties both caches; with a config
  path it removes the entries of that path, of every kind, and keeps every other entry
  and the tree cache; with a root it removes the entry of the absolute form of the root
  and keeps every other entry and the config cache; with both it does both.
\<close>

theorem invalidate_caches_frame:
  "config_cache (invalidate_caches w c None None) = Map.empty
   \<and> tree_cache (invalidate_caches w c None None) = Map.empty
   \<and> config_cache (invalidate_caches w c (Some p) None) (q, kind)
       = (if q = p then None else config_cache c (q, kind))
   \<and> tree_cache (invalidate_caches w c (Some p) None) = tree_cache c
   \<and> tree_cache (invalidate_caches w c None (Some r)) r'
       = (if r' = abspath w r then None else tree_cache c r')
   \<and> config_cache (invalidate_caches w c None (Some r)) = config_cache c
   \<and> config_cache (invalidate_caches w c (Some p) (Some r)) (q, kind)
       = (if q = p then None else config_cache c (q, kind))
   \<and> tree_cache (invalidate_caches w c (Some p) (Some r)) r'
       = (if r' = abspath w r then None else tree_cache c r')"
  by (simp add: invalidate_caches_def)

theorem invalidate_caches_frame_witness:
  "config_cache (invalidate_caches example_world warm_caches (Some ''/etc/app.conf'') None)
     (''/etc/app.conf'', KEY_VALUE) = None
   \<and> config_cache warm_caches (''/etc/app.conf'', KEY_VALUE)
       = Some (1, PDict [(''root'', PStr ''/srv/data'')])
   \<and> config_cache (invalidate_caches example_world warm_caches (Some ''/etc/noroot.conf'') None)
       (''/etc/app.conf'', KEY_VALUE) = Some (1, PDict [(''root'', PStr ''/srv/data'')])
   \<and> config_cache (invalidate_caches example_world warm_caches None (Some ''data'')) = config_cache warm_caches
   \<and> config_cache (invalidate_caches example_world warm_caches None None) = Map.empty"
proof -
  have e: "config_cache warm_caches (''/etc/app.conf'', KEY_VALUE)
       = Some (1, PDict [(''root'', PStr ''/srv/data'')])"
    by code_simp
  have n: "''/etc/app.conf'' \<noteq> ''/etc/noroot.conf''" by simp
  from invalidate_caches_frame [of example_world warm_caches "''/etc/app.conf''" "''/etc/app.conf''" KEY_VALUE "''data''"]
  have 1: "config_cache (invalidate_caches example_world warm_caches (Some ''/etc/app.conf'') None)
     (''/etc/app.conf'', KEY_VALUE) = None"
    and 3: "config_cache (invalidate_caches example_world warm_caches None (Some ''data'')) = config_cache warm_caches"
    and 4: "config_cache (invalidate_caches example_world warm_caches None None) = Map.empty"
    by simp_all
  from invalidate_caches_frame [of example_world warm_caches "''/etc/noroot.conf''" "''/etc/app.conf''" KEY_VALUE]
  have 2: "config_cache (invalidate_caches example_world warm_caches (Some ''/etc/noroot.conf'') None)
       (''/etc/app.conf'', KEY_VALUE) = Some (1, PDict [(''root'', PStr ''/srv/data'')])"
    using e n by simp
  from 1 e 2 3 4 show ?thesis by blast
qed

text \<open>
  Claim C5, amended. A failing \<open>get_config\<close>, a failing \<open>get_tree\<close> and every \<open>find\<close> leave
  both caches as they were. A failing construction leaves the tree cache as it was; an
  entry of the config cache differs from before only when it was removed by the forced
  refresh of its path, or when it is the entry of the constructor's \<open>(path, kind)\<close> and
  now holds a successful parse of the file with the file's modification time. A
  construction without forced refresh whose config lookup fails leaves both caches as they
  were.
\<close>

theorem failing_call_caches:
  "(fst (get_config w c path kind rk) = Inl e \<longrightarrow> snd (get_config w c path kind rk) = c)
   \<and> (fst (get_tree w c root_abs) = Inl e \<longrightarrow> snd (get_tree w c root_abs) = c)
   \<and> snd (find_fcr w c self name start p) = c
   \<and> (fst (init w c path kind rk force) = Inl e \<longrightarrow>
        tree_cache (snd (init w c path kind rk force)) = tree_cache c
        \<and> (\<forall>key. config_cache (snd (init w c path kind rk force)) key = config_cache c key
              \<or> (force \<and> fst key = path
                   \<and> config_cache (snd (init w c path kind rk force)) key = None)
              \<or> (key = (path, kind)
                   \<and> (\<exists>cfg mt. load_config w path kind rk = Inr cfg
                         \<and> getmtime w path = Inr mt
                         \<and> config_cache (snd (init w c path kind rk force)) key
                             = Some (mt, cfg)))))
   \<and> (fst (init w c path kind rk force) = Inl e \<and> \<not> force
        \<and> fst (get_config w c path kind rk) = Inl e'
      \<longrightarrow> snd (init w c path kind rk force) = c)"
proof -
  have 1: "snd (get_config w c path kind rk) = c" if "fst (get_config w c path kind rk) = Inl e"
    using that get_config_fail [of w c path kind rk e "snd (get_config w c path kind rk)"]
    by (metis prod.collapse)
  have 2: "snd (get_tree w c root_abs) = c" if "fst (get_tree w c root_abs) = Inl e"
    using that get_tree_fail [of w c root_abs e "snd (get_tree w c root_abs)"]
    by (metis prod.collapse)
  have 4: "tree_cache (snd (init w c path kind rk force)) = tree_cache c
        \<and> (\<forall>key. config_cache (snd (init w c path kind rk force)) key = config_cache c key
              \<or> (force \<and> fst key = path
                   \<and> config_cache (snd (init w c path kind rk force)) key = None)
              \<or> (key = (path, kind)
                   \<and> (\<exists>cfg mt. load_config w path kind rk = Inr cfg
                         \<and> getmtime w path = Inr mt
                         \<and> config_cache (snd (init w c path kind rk force)) key
                             = Some (mt, cfg))))"
    if f: "fst (init w c path kind rk force) = Inl e"
  proof -
    define c0 where "c0 = (if force then invalidate_caches w c (Some path) None else c)"
    define c' where "c' = snd (init w c path kind rk force)"
    have i: "init w c path kind rk force = (Inl e, c')"
      using f by (simp add: c'_def prod_eq_iff)
    then have c': "c' = snd (get_config w c0 path kind rk)"
      unfolding c0_def by (rule init_fail_caches)
    have t0: "tree_cache c0 = tree_cache c"
      and k0: "\<forall>key. config_cache c0 key = config_cache c key
                 \<or> (force \<and> fst key = path \<and> config_cache c0 key = None)"
      by (auto simp: c0_def invalidate_caches_def)
    obtain r where g: "get_config w c0 path kind rk = (r, c')"
      using c' by (metis prod.collapse)
    from get_config_caches [OF g] show ?thesis
      unfolding c'_def [symmetric]
    proof
      assume "c' = c0"
      then show "tree_cache c' = tree_cache c
        \<and> (\<forall>key. config_cache c' key = config_cache c key
              \<or> (force \<and> fst key = path \<and> config_cache c' key = None)
              \<or> (key = (path, kind)
                   \<and> (\<exists>cfg mt. load_config w path kind rk = Inr cfg
                         \<and> getmtime w path = Inr mt
                         \<and> config_cache c' key = Some (mt, cfg))))"
      proof (intro conjI allI)
        show "tree_cache c' = tree_cache c" using \<open>c' = c0\<close> t0 by simp
      next
        fix key
        from k0 have "config_cache c0 key = config_cache c key
                 \<or> (force \<and> fst key = path \<and> config_cache c0 key = None)" by (rule spec)
        then show "config_cache c' key = config_cache c key
              \<or> (force \<and> fst key = path \<and> config_cache c' key = None)
              \<or> (key = (path, kind)
                   \<and> (\<exists>cfg mt. load_config w path kind rk = Inr cfg
                         \<and> getmtime w path = Inr mt
                         \<and> config_cache c' key = Some (mt, cfg)))"
          unfolding \<open>c' = c0\<close> by (elim disjE) (rule disjI1, assumption, rule disjI2, rule disjI1, assumption)
      qed
    next
      assume "\<exists>cfg mt. r = Inr cfg \<and> load_config w path kind rk = Inr cfg
            \<and> getmtime w path = Inr mt
            \<and> c' = c0\<lparr>config_cache := (config_cache c0)((path, kind) \<mapsto> (mt, cfg))\<rparr>"
      then obtain cfg mt where l: "load_config w path kind rk = Inr cfg"
        and g: "getmtime w path = Inr mt"
        and u: "c' = c0\<lparr>config_cache := (config_cache c0)((path, kind) \<mapsto> (mt, cfg))\<rparr>"
        by blast
      show "tree_cache c' = tree_cache c
        \<and> (\<forall>key. config_cache c' key = config_cache c key
              \<or> (force \<and> fst key = path \<and> config_cache c' key = None)
              \<or> (key = (path, kind)
                   \<and> (\<exists>cfg mt. load_config w path kind rk = Inr cfg
                         \<and> getmtime w path = Inr mt
                         \<and> config_cache c' key = Some (mt, cfg))))"
      proof (intro conjI allI)
        show "tree_cache c' = tree_cache c" using u t0 by simp
      next
        fix key
        show "config_cache c' key = config_cache c key
              \<or> (force \<and> fst key = path \<and> config_cache c' key = None)
              \<or> (key = (path, kind)
                   \<and> (\<exists>cfg mt. load_config w path kind rk = Inr cfg
                         \<and> getmtime w path = Inr mt
                         \<and> config_cache c' key = Some (mt, cfg)))"
        proof (cases "key = (path, kind)")
          case True
          then show ?thesis using l g u by simp
        next
          case False
          then have e: "config_cache c' key = config_cache c0 key" using u by simp
          from k0 have "config_cache c0 key = config_cache c key
                 \<or> (force \<and> fst key = path \<and> config_cache c0 key = None)" by (rule spec)
          then show ?thesis unfolding e [symmetric]
            by (elim disjE) (rule disjI1, assumption, rule disjI2, rule disjI1, assumption)
        qed
      qed
    qed
  qed
  have 5: "snd (init w c path kind rk force) = c"
    if f: "fst (init w c path kind rk force) = Inl e" and "\<not> force"
      and g: "fst (get_config w c path kind rk) = Inl e'"
  proof -
    have "init w c path kind rk force = (Inl e, snd (init w c path kind rk force))"
      using f by (simp add: prod_eq_iff)
    from init_fail_caches [OF this] \<open>\<not> force\<close>
    have "snd (init w c path kind rk force) = snd (get_config w c path kind rk)" by simp
    also have "\<dots> = c"
      using g get_config_fail [of w c path kind rk e' "snd (get_config w c path kind rk)"]
      by (metis prod.collapse)
    finally show ?thesis .
  qed
  show ?thesis
    apply (rule conjI, rule impI, erule 1)
    apply (rule conjI, rule impI, erule 2)
    apply (rule conjI, rule find_fcr_caches)
    apply (rule conjI, rule impI, erule 4)
    apply (rule impI, elim conjE, erule (2) 5)
    done
qed

theorem failing_call_caches_witness:
  "raised (fst (get_config example_world warm_caches ''/etc/bad.conf'' KEY_VALUE None))
     = Some (ValueError ''not enough values to unpack (expected 2, got 1)'')
   \<and> snd (get_config example_world warm_caches ''/etc/bad.conf'' KEY_VALUE None) = warm_caches
   \<and> raised (fst (get_tree example_world warm_caches ''/srv/none''))
       = Some (ValueError ''Invalid root path provided for tree scan.'')
   \<and> snd (get_tree example_world warm_caches ''/srv/none'') = warm_caches
   \<and> raised (fst (init example_world warm_caches ''/etc/bad.conf'' KEY_VALUE None False))
       = Some (ValueError ''not enough values to unpack (expected 2, got 1)'')
   \<and> snd (init example_world warm_caches ''/etc/bad.conf'' KEY_VALUE None False) = warm_caches
   \<and> raised (fst (init example_world empty_caches ''/etc/noroot.conf'' KEY_VALUE None False))
       = Some (KeyError ''Missing 'root' in configuration.'')
   \<and> tree_cache (snd (init example_world empty_caches ''/etc/noroot.conf'' KEY_VALUE None False))
       = tree_cache empty_caches"
proof -
  have a: "raised (fst (get_config example_world warm_caches ''/etc/bad.conf'' KEY_VALUE None))
     = Some (ValueError ''not enough values to unpack (expected 2, got 1)'')"
    and b: "raised (fst (get_tree example_world warm_caches ''/srv/none''))
       = Some (ValueError ''Invalid root path provided for tree scan.'')"
    and c: "raised (fst (init example_world warm_caches ''/etc/bad.conf'' KEY_VALUE None False))
       = Some (ValueError ''not enough values to unpack (expected 2, got 1)'')"
    and d: "raised (fst (init example_world empty_caches ''/etc/noroot.conf'' KEY_VALUE None False))
       = Some (KeyError ''Missing 'root' in configuration.'')"
    by code_simp+
  note T = failing_call_caches [where w = example_world and c = warm_caches
      and path = "''/etc/bad.conf''" and kind = KEY_VALUE and rk = None and force = False
      and e = "ValueError ''not enough values to unpack (expected 2, got 1)''"
      and e' = "ValueError ''not enough values to unpack (expected 2, got 1)''"]
  have 1: "snd (get_config example_world warm_caches ''/etc/bad.conf'' KEY_VALUE None) = warm_caches"
    using T a unfolding raised_iff by blast
  have 3: "snd (init example_world warm_caches ''/etc/bad.conf'' KEY_VALUE None False) = warm_caches"
    using T a c unfolding raised_iff by blast
  have 2: "snd (get_tree example_world warm_caches ''/srv/none'') = warm_caches"
    using failing_call_caches [where w = example_world and c = warm_caches
       and e = "ValueError ''Invalid root path provided for tree scan.''"
       and root_abs = "''/srv/none''"] b unfolding raised_iff by blast
  have 4: "tree_cache (snd (init example_world empty_caches ''/etc/noroot.conf'' KEY_VALUE None False))
       = tree_cache empty_caches"
    using failing_call_caches [where w = example_world and c = empty_caches
       and path = "''/etc/noroot.conf''" and kind = KEY_VALUE and rk = None and force = False
       and e = "KeyError ''Missing 'root' in configuration.''"] d unfolding raised_iff by blast
  from a b c d 1 2 3 4 show ?thesis by blast
qed

text \<open>
  The claim as it stands fails for the construction: on the key-value file without
  \<^verbatim>\<open>root\<close> and empty caches, the constructor raises the missing-root error after the
  config cache has received the entry of the file.
\<close>

theorem failing_construction_populates_cache:
  "raised (fst (init example_world empty_caches ''/etc/noroot.conf'' KEY_VALUE None False))
     = Some (KeyError ''Missing 'root' in configuration.'')
   \<and> config_cache empty_caches (''/etc/noroot.conf'', KEY_VALUE) = None
   \<and> config_cache (snd (init example_world empty_caches ''/etc/noroot.conf'' KEY_VALUE None False))
       (''/etc/noroot.conf'', KEY_VALUE) = Some (1, PDict [(''a'', PStr ''1'')])"
  by code_simp

section \<open>Properties of the key-value parser\<close>

lemma drop_units_suffix: "suffix (drop_units n us s) s"
proof (induction n arbitrary: s)
  case 0
  show ?case by simp
next
  case (Suc n)
  show ?case
  proof (cases "List.find (\<lambda>u. u \<noteq> [] \<and> prefix u s) us")
    case None
    then show ?thesis by simp
  next
    case (Some u)
    have "suffix (drop_units n us (drop (length u) s)) (drop (length u) s)"
      by (rule Suc.IH)
    moreover have "suffix (drop (length u) s) s"
      by (rule suffix_drop)
    ultimately show ?thesis
      using Some by (auto intro: suffix_order.trans)
  qed
qed

lemma set_lstrip: "set (lstrip s) \<subseteq> set s"
  unfolding lstrip_def by (rule set_mono_suffix) (rule drop_units_suffix)

lemma set_rstrip: "set (rstrip s) \<subseteq> set s"
proof -
  have "set (drop_units (length s) (map rev whitespace) (rev s)) \<subseteq> set (rev s)"
    by (rule set_mono_suffix) (rule drop_units_suffix)
  then show ?thesis by (simp add: rstrip_def)
qed

lemma set_strip: "set (strip s) \<subseteq> set s"
  unfolding strip_def using set_rstrip set_lstrip by blast

lemma key_value_loop_line_without_equals:
  assumes "l \<in> set ls" and "strip l \<noteq> []" and "\<not> prefix ''#'' (strip l)"
    and "CHR ''='' \<notin> set (strip l)"
  shows "key_value_loop cfg ls = Inl (ValueError ''not enough values to unpack (expected 2, got 1)'')"
  using assms(1)
proof (induction ls arbitrary: cfg)
  case Nil
  then show ?case by simp
next
  case (Cons a ls)
  show ?case
  proof (cases "strip a \<noteq> [] \<and> \<not> prefix ''#'' (strip a)")
    case False
    then have "a \<noteq> l" using assms by auto
    with Cons.prems have "l \<in> set ls" by simp
    with False Cons.IH show ?thesis by (auto simp: Let_def)
  next
    case stmt: True
    show ?thesis
    proof (cases "CHR ''='' \<in> set (strip a)")
      case True
      then have "a \<noteq> l" using assms by auto
      with Cons.prems have "l \<in> set ls" by simp
      with stmt True Cons.IH show ?thesis by (simp add: Let_def str_split1_def)
    next
      case False
      with stmt show ?thesis by (simp add: Let_def str_split1_def)
    qed
  qed
qed

text \<open>
  On a file of malformed bytes the loop runs over the lines delivered before the failing
  chunk: an error of the loop comes first, the decoding error otherwise.
\<close>

lemma load_config_malformed:
  assumes "fs w path = Some (File m (Malformed pre r))"
  shows "load_config w path KEY_VALUE rk
         = (case key_value_loop [] (filter (suffix [CHR 0x0A]) (file_lines pre)) of
              Inl e \<Rightarrow> Inl e
            | Inr config \<Rightarrow> Inl UnicodeDecodeError)"
  using assms by (simp add: load_config_def exists_path_def iter_lines_def split: sum.splits)

text \<open>
  Claim C10. Whenever a key-value file holds a line that is not blank, does not start
  with \<^verbatim>\<open>#\<close> (both after stripping, as the source tests them) and contains no \<^verbatim>\<open>=\<close>,
  \<open>load_config\<close> raises the \<^verbatim>\<open>ValueError\<close> of the failed tuple unpacking: the line is not
  ignored, and the error is none of those the source raises itself (file not found,
  missing required keys, unsupported configuration type).
\<close>

theorem load_config_line_without_equals:
  "fs w path = Some (File m (Utf8 t)) \<and> l \<in> set (file_lines (universal_newlines t))
     \<and> strip l \<noteq> [] \<and> \<not> prefix ''#'' (strip l) \<and> CHR ''='' \<notin> set l
   \<longrightarrow> load_config w path KEY_VALUE rk
       = Inl (ValueError ''not enough values to unpack (expected 2, got 1)'')"
proof (intro impI, elim conjE)
  assume f: "fs w path = Some (File m (Utf8 t))"
    and l: "l \<in> set (file_lines (universal_newlines t))"
    and s: "strip l \<noteq> []" "\<not> prefix ''#'' (strip l)" and e: "CHR ''='' \<notin> set l"
  from e set_strip have "CHR ''='' \<notin> set (strip l)" by blast
  with l s have "key_value_loop [] (file_lines (universal_newlines t))
      = Inl (ValueError ''not enough values to unpack (expected 2, got 1)'')"
    by (rule key_value_loop_line_without_equals)
  with f show "load_config w path KEY_VALUE rk
       = Inl (ValueError ''not enough values to unpack (expected 2, got 1)'')"
    by (simp add: load_config_def exists_path_def iter_lines_def)
qed

theorem load_config_line_without_equals_witness:
  "fs example_world ''/etc/bad.conf''
     = Some (File 1 (Utf8 (''a=1'' @ [CHR 0x0A] @ ''novalue'' @ [CHR 0x0A])))
   \<and> ''novalue'' @ [CHR 0x0A]
       \<in> set (file_lines (universal_newlines (''a=1'' @ [CHR 0x0A] @ ''novalue'' @ [CHR 0x0A])))
   \<and> strip (''novalue'' @ [CHR 0x0A]) \<noteq> []
   \<and> \<not> prefix ''#'' (strip (''novalue'' @ [CHR 0x0A]))
   \<and> CHR ''='' \<notin> set (''novalue'' @ [CHR 0x0A])
   \<and> load_config example_world ''/etc/bad.conf'' KEY_VALUE None
       = Inl (ValueError ''not enough values to unpack (expected 2, got 1)'')"
proof -
  have h: "fs example_world ''/etc/bad.conf''
     = Some (File 1 (Utf8 (''a=1'' @ [CHR 0x0A] @ ''novalue'' @ [CHR 0x0A])))
   \<and> ''novalue'' @ [CHR 0x0A]
       \<in> set (file_lines (universal_newlines (''a=1'' @ [CHR 0x0A] @ ''novalue'' @ [CHR 0x0A])))
   \<and> strip (''novalue'' @ [CHR 0x0A]) \<noteq> []
   \<and> \<not> prefix ''#'' (strip (''novalue'' @ [CHR 0x0A]))
   \<and> CHR ''='' \<notin> set (''novalue'' @ [CHR 0x0A])"
    by code_simp
  with load_config_line_without_equals [of example_world "''/etc/bad.conf''" 1
      "''a=1'' @ [CHR 0x0A] @ ''novalue'' @ [CHR 0x0A]" "''novalue'' @ [CHR 0x0A]" None]
  show ?thesis by blast
qed

section \<open>Properties of the constructor\<close>

text \<open>
  Claim C7, amended. The constructor first looks the config up (after the forced
  invalidation, if asked), and fails as the lookup fails. When the loaded configuration is
  a mapping in which \<^verbatim>\<open>root\<close> is absent or has a false value (the empty string among
  them), it fails with the missing-root error. When the value of \<^verbatim>\<open>root\<close> is a non-empty
  string, it takes its absolute path and builds or fetches the tree of that root through
  \<open>get_tree\<close>, failing as \<open>get_tree\<close> fails. A true value of \<^verbatim>\<open>root\<close> that is not a string
  is rejected with a type error.
\<close>

theorem init_root:
  "get_config w (if force then invalidate_caches w c (Some path) None else c) path kind rk = (r, c1)
   \<longrightarrow>
     (\<forall>e. r = Inl e \<longrightarrow> init w c path kind rk force = (Inl e, c1))
   \<and> (\<forall>kvs. r = Inr (PDict kvs)
          \<and> (map_of kvs ''root'' = None \<or> (\<exists>v. map_of kvs ''root'' = Some v \<and> \<not> truthy v))
        \<longrightarrow> init w c path kind rk force
            = (Inl (KeyError ''Missing 'root' in configuration.''), c1))
   \<and> (\<forall>kvs s. r = Inr (PDict kvs) \<and> map_of kvs ''root'' = Some (PStr s) \<and> s \<noteq> []
        \<longrightarrow> init w c path kind rk force
            = (case get_tree w c1 (abspath w s) of
                 (Inl e, c2) \<Rightarrow> (Inl e, c2)
               | (Inr t, c2) \<Rightarrow>
                   (Inr \<lparr>self_config = PDict kvs, self_root = abspath w s, self_tree = t\<rparr>, c2)))
   \<and> (\<forall>kvs v. r = Inr (PDict kvs) \<and> map_of kvs ''root'' = Some v \<and> truthy v
          \<and> (\<forall>s. v \<noteq> PStr s)
        \<longrightarrow> init w c path kind rk force = (Inl TypeError, c1))"
proof (intro impI)
  assume g: "get_config w (if force then invalidate_caches w c (Some path) None else c) path kind rk = (r, c1)"
  have 1: "init w c path kind rk force = (Inl e, c1)" if "r = Inl e" for e
    using g that by (simp add: init_def Let_def)
  have 2: "init w c path kind rk force = (Inl (KeyError ''Missing 'root' in configuration.''), c1)"
    if "r = Inr (PDict kvs)"
      and "map_of kvs ''root'' = None \<or> (\<exists>v. map_of kvs ''root'' = Some v \<and> \<not> truthy v)" for kvs
    using g that by (auto simp: init_def Let_def)
  have 3: "init w c path kind rk force
            = (case get_tree w c1 (abspath w s) of
                 (Inl e, c2) \<Rightarrow> (Inl e, c2)
               | (Inr t, c2) \<Rightarrow>
                   (Inr \<lparr>self_config = PDict kvs, self_root = abspath w s, self_tree = t\<rparr>, c2))"
    if "r = Inr (PDict kvs)" and "map_of kvs ''root'' = Some (PStr s)" and "s \<noteq> []" for kvs s
    using g that by (simp add: init_def Let_def)
  have 4: "init w c path kind rk force = (Inl TypeError, c1)"
    if "r = Inr (PDict kvs)" and "map_of kvs ''root'' = Some v" and "truthy v"
      and "\<forall>s. v \<noteq> PStr s" for kvs v
    using g that by (cases v) (simp_all add: init_def Let_def)
  from 1 2 3 4 show "(\<forall>e. r = Inl e \<longrightarrow> init w c path kind rk force = (Inl e, c1))
   \<and> (\<forall>kvs. r = Inr (PDict kvs)
          \<and> (map_of kvs ''root'' = None \<or> (\<exists>v. map_of kvs ''root'' = Some v \<and> \<not> truthy v))
        \<longrightarrow> init w c path kind rk force
            = (Inl (KeyError ''Missing 'root' in configuration.''), c1))
   \<and> (\<forall>kvs s. r = Inr (PDict kvs) \<and> map_of kvs ''root'' = Some (PStr s) \<and> s \<noteq> []
        \<longrightarrow> init w c path kind rk force
            = (case get_tree w c1 (abspath w s) of
                 (Inl e, c2) \<Rightarrow> (Inl e, c2)
               | (Inr t, c2) \<Rightarrow>
                   (Inr \<lparr>self_config = PDict kvs, self_root = abspath w s, self_tree = t\<rparr>, c2)))
   \<and> (\<forall>kvs v. r = Inr (PDict kvs) \<and> map_of kvs ''root'' = Some v \<and> truthy v
          \<and> (\<forall>s. v \<noteq> PStr s)
        \<longrightarrow> init w c path kind rk force = (Inl TypeError, c1))"
    by blast
qed

theorem init_root_witness:
  "raised (fst (get_config example_world empty_caches ''/etc/gone.conf'' KEY_VALUE None))
     = Some (FileNotFoundError ''Configuration file not found: /etc/gone.conf'')
   \<and> raised (fst (init example_world empty_caches ''/etc/gone.conf'' KEY_VALUE None False))
       = Some (FileNotFoundError ''Configuration file not found: /etc/gone.conf'')
   \<and> fst (get_config example_world empty_caches ''/etc/noroot.conf'' KEY_VALUE None)
       = Inr (PDict [(''a'', PStr ''1'')])
   \<and> map_of [(''a'', PStr ''1'')] ''root'' = None
   \<and> raised (fst (init example_world empty_caches ''/etc/noroot.conf'' KEY_VALUE None False))
       = Some (KeyError ''Missing 'root' in configuration.'')
   \<and> fst (get_config example_world empty_caches ''/etc/app.conf'' KEY_VALUE None)
       = Inr (PDict [(''root'', PStr ''/srv/data'')])
   \<and> map_of [(''root'', PStr ''/srv/data'')] ''root'' = Some (PStr ''/srv/data'')
   \<and> init example_world empty_caches ''/etc/app.conf'' KEY_VALUE None False
       = (case get_tree example_world
                 (snd (get_config example_world empty_caches ''/etc/app.conf'' KEY_VALUE None))
                 (abspath example_world ''/srv/data'') of
            (Inl e, c2) \<Rightarrow> (Inl e, c2)
          | (Inr t, c2) \<Rightarrow>
              (Inr \<lparr>self_config = PDict [(''root'', PStr ''/srv/data'')],
                    self_root = abspath example_world ''/srv/data'', self_tree = t\<rparr>, c2))
   \<and> fst (get_config example_world empty_caches ''/etc/app.json'' JSON None)
       = Inr (PDict [(''root'', PInt 5)])
   \<and> raised (fst (init example_world empty_caches ''/etc/app.json'' JSON None False)) = Some TypeError"
proof -
  have a: "raised (fst (get_config example_world empty_caches ''/etc/gone.conf'' KEY_VALUE None))
     = Some (FileNotFoundError ''Configuration file not found: /etc/gone.conf'')"
    and b: "fst (get_config example_world empty_caches ''/etc/noroot.conf'' KEY_VALUE None)
       = Inr (PDict [(''a'', PStr ''1'')])"
    and b': "map_of [(''a'', PStr ''1'')] ''root'' = None"
    and c: "fst (get_config example_world empty_caches ''/etc/app.conf'' KEY_VALUE None)
       = Inr (PDict [(''root'', PStr ''/srv/data'')])"
    and c': "map_of [(''root'', PStr ''/srv/data'')] ''root'' = Some (PStr ''/srv/data'')"
    and d: "fst (get_config example_world empty_caches ''/etc/app.json'' JSON None)
       = Inr (PDict [(''root'', PInt 5)])"
    by code_simp+
  have g: "get_config example_world (if False then invalidate_caches example_world empty_caches (Some p) None
              else empty_caches) p k None
        = (fst (get_config example_world empty_caches p k None),
           snd (get_config example_world empty_caches p k None))" for p k
    by simp
  have 1: "raised (fst (init example_world empty_caches ''/etc/gone.conf'' KEY_VALUE None False))
       = Some (FileNotFoundError ''Configuration file not found: /etc/gone.conf'')"
  proof -
    note r = init_root [THEN mp, OF g [of "''/etc/gone.conf''" KEY_VALUE],
        THEN conjunct1, rule_format, OF a [unfolded raised_iff]]
    show ?thesis unfolding r by (simp only: fst_conv raised_iff)
  qed
  have 2: "raised (fst (init example_world empty_caches ''/etc/noroot.conf'' KEY_VALUE None False))
       = Some (KeyError ''Missing 'root' in configuration.'')"
  proof -
    note r = init_root [THEN mp, OF g [of "''/etc/noroot.conf''" KEY_VALUE],
        THEN conjunct2, THEN conjunct1, rule_format, OF conjI, OF b disjI1, OF b']
    show ?thesis unfolding r by (simp only: fst_conv raised_iff)
  qed
  have ne: "''/srv/data'' \<noteq> []" by simp
  have 3: "init example_world empty_caches ''/etc/app.conf'' KEY_VALUE None False
       = (case get_tree example_world
                 (snd (get_config example_world empty_caches ''/etc/app.conf'' KEY_VALUE None))
                 (abspath example_world ''/srv/data'') of
            (Inl e, c2) \<Rightarrow> (Inl e, c2)
          | (Inr t, c2) \<Rightarrow>
              (Inr \<lparr>self_config = PDict [(''root'', PStr ''/srv/data'')],
                    self_root = abspath example_world ''/srv/data'', self_tree = t\<rparr>, c2))"
    by (rule init_root [THEN mp, OF g [of "''/etc/app.conf''" KEY_VALUE],
        THEN conjunct2, THEN conjunct2, THEN conjunct1, rule_format, OF conjI, OF c conjI, OF c' ne])
  have t5: "truthy (PInt 5)" and m5: "map_of [(''root'', PInt 5)] ''root'' = Some (PInt 5)"
    and n5: "\<forall>s. PInt 5 \<noteq> PStr s"
    by simp_all
  have 4: "raised (fst (init example_world empty_caches ''/etc/app.json'' JSON None False)) = Some TypeError"
  proof -
    note r = init_root [THEN mp, OF g [of "''/etc/app.json''" JSON],
        THEN conjunct2, THEN conjunct2, THEN conjunct2, rule_format, OF conjI, OF d conjI,
        OF m5 conjI, OF t5 n5]
    show ?thesis unfolding r by (simp only: fst_conv raised_iff)
  qed
  from a b b' c c' d 1 2 3 4 show ?thesis by blast
qed

text \<open>
  The claim as it stands fails on a JSON configuration whose \<^verbatim>\<open>root\<close> is the number 5:
  the key is present and its value is not empty, yet the constructor raises a type error
  and no tree is built.
\<close>

theorem construction_with_numeric_root:
  "fst (get_config example_world empty_caches ''/etc/app.json'' JSON None)
     = Inr (PDict [(''root'', PInt 5)])
   \<and> dict_get (PDict [(''root'', PInt 5)]) ''root'' = Inr (PInt 5)
   \<and> truthy (PInt 5)
   \<and> raised (fst (init example_world empty_caches ''/etc/app.json'' JSON None False)) = Some TypeError
   \<and> tree_cache (snd (init example_world empty_caches ''/etc/app.json'' JSON None False)) ''/srv/data'' = None"
  by code_simp

section \<open>Properties of the path functions\<close>

lemma str_join_Cons: "str_join s (x # xs) = (if xs = [] then x else x @ s @ str_join s xs)"
  by (cases xs) simp_all

lemma str_join_snoc: "cs \<noteq> [] \<Longrightarrow> str_join s (cs @ [f]) = str_join s cs @ s @ f"
  by (induction cs rule: str_join.induct[of _ s]) (simp_all add: str_join_Cons)

lemma str_split_no_sep: "c \<notin> set x \<Longrightarrow> str_split c x = [x]"
  by (induction x) auto

lemma str_split_append: "c \<notin> set x \<Longrightarrow> str_split c (x @ c # rest) = x # str_split c rest"
  by (induction x) auto

lemma str_split_join:
  "\<forall>x \<in> set cs. c \<notin> set x \<Longrightarrow> cs \<noteq> [] \<Longrightarrow> str_split c (str_join [c] cs) = cs"
proof (induction cs)
  case Nil
  then show ?case by simp
next
  case (Cons x cs)
  show ?case
  proof (cases "cs = []")
    case True
    with Cons.prems show ?thesis by (simp add: str_split_no_sep)
  next
    case False
    with Cons show ?thesis by (simp add: str_join_Cons str_split_append)
  qed
qed


lemma normpath_comps_valid:
  "\<forall>c \<in> set cs. valid_name c \<Longrightarrow> normpath_comps i acc cs = acc @ cs"
  by (induction cs arbitrary: acc) (auto simp: valid_name_def)

lemma str_join_ends:
  assumes "\<forall>c \<in> set cs. c \<noteq> [] \<and> sep \<notin> set c" and "cs \<noteq> []"
  shows "str_join [sep] cs \<noteq> [] \<and> hd (str_join [sep] cs) \<noteq> sep \<and> last (str_join [sep] cs) \<noteq> sep
         \<and> count_list (str_join [sep] cs) sep = length cs - 1"
  using assms
proof (induction cs)
  case Nil
  then show ?case by simp
next
  case (Cons x cs)
  then have x: "x \<noteq> []" "sep \<notin> set x" by auto
  then have hx: "hd x \<noteq> sep" "last x \<noteq> sep" "count_list x sep = 0"
    by (metis hd_in_set, metis last_in_set, simp add: count_list_0_iff)
  show ?case
  proof (cases "cs = []")
    case True
    with x hx show ?thesis by simp
  next
    case False
    with Cons have ih: "str_join [sep] cs \<noteq> []" "last (str_join [sep] cs) \<noteq> sep"
      "count_list (str_join [sep] cs) sep = length cs - 1" by auto
    from False have "length cs \<noteq> 0" by simp
    with False x hx ih show ?thesis by (simp add: str_join_Cons)
  qed
qed

lemma str_join_valid:
  assumes "\<forall>c \<in> set cs. valid_name c" and "cs \<noteq> []"
  shows "str_join [sep] cs \<noteq> [] \<and> hd (str_join [sep] cs) \<noteq> sep \<and> last (str_join [sep] cs) \<noteq> sep
         \<and> count_list (str_join [sep] cs) sep = length cs - 1"
  by (rule str_join_ends) (use assms in \<open>auto simp: valid_name_def\<close>)

lemma normpath_join:
  assumes "\<forall>c \<in> set cs. valid_name c" and "cs \<noteq> []"
  shows "normpath (str_join [sep] cs) = str_join [sep] cs"
proof -
  from str_join_valid [OF assms]
  have ne: "str_join [sep] cs \<noteq> []" and h: "hd (str_join [sep] cs) \<noteq> sep" by auto
  then have np: "\<not> prefix [sep] (str_join [sep] cs)"
    by (cases "str_join [sep] cs") auto
  from assms have "\<forall>x \<in> set cs. sep \<notin> set x" by (auto simp: valid_name_def)
  then have "str_split sep (str_join [sep] cs) = cs" using assms(2) by (rule str_split_join)
  with ne np assms show ?thesis
    by (simp add: normpath_def normpath_comps_valid Let_def)
qed

lemma depth_join:
  assumes "\<forall>c \<in> set cs. valid_name c" and "cs \<noteq> []"
  shows "depth (str_join [sep] cs) = int (length cs)"
proof -
  from str_join_valid [OF assms]
  have ne: "str_join [sep] cs \<noteq> []" and h: "hd (str_join [sep] cs) \<noteq> sep"
    and l: "last (str_join [sep] cs) \<noteq> sep"
    and c: "count_list (str_join [sep] cs) sep = length cs - 1" by auto
  from ne h have 1: "lstrip_char sep (str_join [sep] cs) = str_join [sep] cs"
    by (cases "str_join [sep] cs") (auto simp: lstrip_char_def)
  from ne l have 2: "rstrip_char sep (str_join [sep] cs) = str_join [sep] cs"
    by (cases "str_join [sep] cs" rule: rev_cases) (auto simp: rstrip_char_def)
  from assms(2) have "int (length cs - 1) + 1 = int (length cs)"
    by (cases cs) auto
  with 1 2 ne c show ?thesis by (simp add: depth_def strip_char_def Let_def)
qed

section \<open>Properties of the tree indexer\<close>

lemma fold_setdefault_append:
  "fold (\<lambda>fp idx. setdefault_append idx (fst fp) (snd fp)) ps idx fname
   = (if map snd (filter (\<lambda>fp. fst fp = fname) ps) = [] then idx fname
      else Some ((case idx fname of None \<Rightarrow> [] | Some paths \<Rightarrow> paths)
                 @ map snd (filter (\<lambda>fp. fst fp = fname) ps)))"
proof (induction ps arbitrary: idx)
  case Nil
  show ?case by simp
next
  case (Cons a ps)
  define idx' where "idx' = setdefault_append idx (fst a) (snd a)"
  have v: "idx' fname = (if fst a = fname
      then Some ((case idx fname of None \<Rightarrow> [] | Some paths \<Rightarrow> paths) @ [snd a])
      else idx fname)"
    by (auto simp: idx'_def setdefault_append_def)
  have "fold (\<lambda>fp idx. setdefault_append idx (fst fp) (snd fp)) (a # ps) idx fname
      = fold (\<lambda>fp idx. setdefault_append idx (fst fp) (snd fp)) ps idx' fname"
    by (simp add: idx'_def)
  also have "\<dots> = (if map snd (filter (\<lambda>fp. fst fp = fname) ps) = [] then idx' fname
      else Some ((case idx' fname of None \<Rightarrow> [] | Some paths \<Rightarrow> paths)
                 @ map snd (filter (\<lambda>fp. fst fp = fname) ps)))"
    by (rule Cons.IH)
  also have "\<dots> = (if map snd (filter (\<lambda>fp. fst fp = fname) (a # ps)) = [] then idx fname
      else Some ((case idx fname of None \<Rightarrow> [] | Some paths \<Rightarrow> paths)
                 @ map snd (filter (\<lambda>fp. fst fp = fname) (a # ps))))"
    unfolding v by simp
  finally show ?case .
qed

lemma scan_dir_pairs:
  "scan_dir idx d = fold (\<lambda>fp idx. setdefault_append idx (fst fp) (snd fp)) (scan_pairs d) idx"
  by (simp add: scan_dir_def scan_pairs_def Let_def fold_map comp_def)

lemma fold_scan_dir:
  "fold (\<lambda>d idx. scan_dir idx d) ds idx
   = fold (\<lambda>fp idx. setdefault_append idx (fst fp) (snd fp)) (concat (map scan_pairs ds)) idx"
  by (induction ds arbitrary: idx) (simp_all add: scan_dir_pairs)

lemma files_under_nonempty: "[] \<notin> set (files_under es)"
  by (induction es rule: files_under.induct) auto

lemma scan_pairs_valid:
  assumes "\<forall>c \<in> set ds. valid_name c" and "\<forall>f \<in> set names. valid_name f"
  shows "mset (scan_pairs (ds, names)) = mset (map (\<lambda>f. (f, str_join [sep] (ds @ [f]))) names)"
proof -
  have p: "(if relpath ds = ''.'' then f else normpath (path_join (relpath ds) f))
           = str_join [sep] (ds @ [f])" if f: "valid_name f" for f
  proof (cases "ds = []")
    case True
    then show ?thesis by (simp add: relpath_def)
  next
    case False
    from str_join_valid [OF assms(1) False]
    have j: "str_join [sep] ds \<noteq> []" "last (str_join [sep] ds) \<noteq> sep"
      "count_list (str_join [sep] ds) sep = length ds - 1" by auto
    have nd: "str_join [sep] ds \<noteq> ''.''"
    proof
      assume e: "str_join [sep] ds = ''.''"
      show False
      proof (cases ds)
        case Nil
        with False show False by simp
      next
        case (Cons d ds')
        show False
        proof (cases "ds' = []")
          case True
          with Cons e assms(1) show False by (simp add: valid_name_def)
        next
          case False
          with Cons j(3) e show False by (simp add: sep_def)
        qed
      qed
    qed
    from f have f': "f \<noteq> []" "hd f \<noteq> sep"
      by (auto simp: valid_name_def) (metis hd_in_set)
    then have nf: "\<not> prefix [sep] f" by (cases f) auto
    from j have ns: "\<not> suffix [sep] (str_join [sep] ds)"
      by (auto simp: suffix_def)
    have "path_join (str_join [sep] ds) f = str_join [sep] (ds @ [f])"
      using nf ns j False by (simp add: path_join_def str_join_snoc)
    moreover have "normpath (str_join [sep] (ds @ [f])) = str_join [sep] (ds @ [f])"
      by (rule normpath_join) (use assms(1) f in auto)
    ultimately show ?thesis using False nd by (simp add: relpath_def)
  qed
  have "scan_pairs (ds, names) = map (\<lambda>f. (f, str_join [sep] (ds @ [f]))) (sort names)"
    unfolding scan_pairs_def using assms(2) p by (auto simp: Let_def)
  then show ?thesis by simp
qed

lemma nondirs_valid: "valid_names es \<Longrightarrow> \<forall>f \<in> set (nondirs es). valid_name f"
  by (induction es rule: nondirs.induct) auto

lemma walk_pairs:
  assumes "\<forall>c \<in> set ds. valid_name c" and "valid_names es"
  shows "mset (concat (map scan_pairs (walk ds es)))
         = mset (map (\<lambda>names. (last names, str_join [sep] (ds @ names))) (files_under es))"
  using assms
proof (induction es arbitrary: ds rule: files_under.induct)
  case 1
  show ?case by (simp add: scan_pairs_def)
next
  case (2 n m t es)
  then have v: "valid_name n" "valid_names es" by auto
  have a: "\<forall>f \<in> set (n # nondirs es). valid_name f"
    using v nondirs_valid by auto
  have b: "\<forall>f \<in> set (nondirs es). valid_name f"
    using v nondirs_valid by auto
  have "mset (concat (map scan_pairs (walk ds ((n, File m t) # es))))
        = mset (scan_pairs (ds, n # nondirs es)) + mset (concat (map scan_pairs (walk_dirs ds es)))"
    by simp
  also have "mset (scan_pairs (ds, n # nondirs es))
        = {#(n, str_join [sep] (ds @ [n]))#} + mset (scan_pairs (ds, nondirs es))"
    unfolding scan_pairs_valid [OF "2.prems"(1) a] scan_pairs_valid [OF "2.prems"(1) b] by simp
  finally have "mset (concat (map scan_pairs (walk ds ((n, File m t) # es))))
        = {#(n, str_join [sep] (ds @ [n]))#} + mset (concat (map scan_pairs (walk ds es)))"
    by simp
  also have "mset (concat (map scan_pairs (walk ds es)))
        = mset (map (\<lambda>names. (last names, str_join [sep] (ds @ names))) (files_under es))"
    using "2.prems"(1) v(2) by (rule "2.IH")
  finally show ?case by simp
next
  case (3 n m sub es)
  then have v: "valid_name n" "valid_names sub" "valid_names es" by auto
  have d: "\<forall>c \<in> set (ds @ [n]). valid_name c" using "3.prems"(1) v(1) by auto
  have "mset (concat (map scan_pairs (walk ds ((n, Dir m sub) # es))))
        = mset (concat (map scan_pairs (walk (ds @ [n]) sub)))
          + mset (concat (map scan_pairs (walk ds es)))"
    by simp
  also have "mset (concat (map scan_pairs (walk (ds @ [n]) sub)))
        = mset (map (\<lambda>names. (last names, str_join [sep] ((ds @ [n]) @ names))) (files_under sub))"
    using d v(2) by (rule "3.IH"(1))
  also have "map (\<lambda>names. (last names, str_join [sep] ((ds @ [n]) @ names))) (files_under sub)
        = map (\<lambda>names. (last names, str_join [sep] (ds @ names))) (map ((#) n) (files_under sub))"
    using files_under_nonempty [of sub] by (auto simp: comp_def)
  also have "mset (concat (map scan_pairs (walk ds es)))
        = mset (map (\<lambda>names. (last names, str_join [sep] (ds @ names))) (files_under es))"
    using "3.prems"(1) v(3) by (rule "3.IH"(2))
  finally show ?case by simp
qed

lemma files_under_valid:
  "valid_names es \<Longrightarrow> names \<in> set (files_under es) \<Longrightarrow> (\<forall>c \<in> set names. valid_name c) \<and> names \<noteq> []"
  by (induction es arbitrary: names rule: files_under.induct) auto

lemma depth_lex_le_key: "depth_lex_le p q \<longleftrightarrow> (depth p, p) \<le> (depth q, q)"
  by (auto simp: depth_lex_le_def)

lemma sorted_wrt_depth_lex: "sorted_wrt depth_lex_le (sort_key (\<lambda>p. (depth p, p)) ps)"
proof -
  have "sorted (map (\<lambda>p. (depth p, p)) (sort_key (\<lambda>p. (depth p, p)) ps))"
    by (rule sorted_sort_key)
  then show ?thesis
    unfolding sorted_map by (simp add: depth_lex_le_key [abs_def])
qed

lemma tree_scan_lookup:
  assumes "root_abs \<noteq> []" and "fs w root_abs = Some (Dir m es)"
  shows "\<exists>index. tree_scan w root_abs = Inr index
          \<and> (\<forall>fname. index fname
                = (if map snd (filter (\<lambda>fp. fst fp = fname) (concat (map scan_pairs (walk [] es)))) = []
                   then None
                   else Some (sort_key (\<lambda>p. (depth p, p))
                     (map snd (filter (\<lambda>fp. fst fp = fname) (concat (map scan_pairs (walk [] es))))))))"
proof -
  have f: "fold (\<lambda>d idx. scan_dir idx d) (os_walk (Dir m es)) Map.empty fname
      = (if map snd (filter (\<lambda>fp. fst fp = fname) (concat (map scan_pairs (walk [] es)))) = []
         then None
         else Some (map snd (filter (\<lambda>fp. fst fp = fname) (concat (map scan_pairs (walk [] es))))))"
    for fname
    by (simp only: os_walk.simps fold_scan_dir fold_setdefault_append option.case append_Nil)
  have "tree_scan w root_abs
      = Inr (\<lambda>fname. map_option (sort_key (\<lambda>p. (depth p, p)))
               (fold (\<lambda>d idx. scan_dir idx d) (os_walk (Dir m es)) Map.empty fname))"
    using assms by (simp add: tree_scan_def Let_def del: os_walk.simps)
  then show ?thesis
    unfolding f by (simp del: walk.simps)
qed

lemma tree_scan_paths:
  "root_abs \<noteq> [] \<and> fs w root_abs = Some (Dir m es) \<and> valid_names es \<longrightarrow>
     (\<exists>index. tree_scan w root_abs = Inr index
        \<and> (\<forall>fname. case index fname of
               None \<Rightarrow> fname \<notin> last ` set (files_under es)
             | Some paths \<Rightarrow>
                 fname \<in> last ` set (files_under es)
                 \<and> mset paths
                     = mset (map rel_path_of
                              (filter (\<lambda>names. last names = fname) (files_under es)))
                 \<and> sorted_wrt depth_lex_le paths))
     \<and> (\<forall>names \<in> set (files_under es). depth (rel_path_of names) = int (length names))"
proof (intro impI, elim conjE)
  assume r: "root_abs \<noteq> []" and f: "fs w root_abs = Some (Dir m es)" and v: "valid_names es"
  define P where "P = concat (map scan_pairs (walk [] es))"
  define sel where "sel fname = map snd (filter (\<lambda>fp. fst fp = fname) P)" for fname
  have P: "mset P = mset (map (\<lambda>names. (last names, rel_path_of names)) (files_under es))"
    unfolding P_def using walk_pairs [of "[]" es] v by (simp add: rel_path_of_def)
  have s: "mset (sel fname)
      = mset (map rel_path_of (filter (\<lambda>names. last names = fname) (files_under es)))" for fname
  proof -
    have "mset (sel fname) = image_mset snd (filter_mset (\<lambda>fp. fst fp = fname) (mset P))"
      by (simp add: sel_def)
    also have "\<dots> = image_mset snd (filter_mset (\<lambda>fp. fst fp = fname)
        (mset (map (\<lambda>names. (last names, rel_path_of names)) (files_under es))))"
      by (simp only: P)
    also have "\<dots> = mset (map snd (filter (\<lambda>fp. fst fp = fname)
        (map (\<lambda>names. (last names, rel_path_of names)) (files_under es))))"
      by simp
    also have "\<dots> = mset (map rel_path_of (filter (\<lambda>names. last names = fname) (files_under es)))"
      by (simp add: filter_map comp_def)
    finally show ?thesis .
  qed
  have e: "sel fname = [] \<longleftrightarrow> fname \<notin> last ` set (files_under es)" for fname
  proof -
    have "sel fname = [] \<longleftrightarrow> mset (sel fname) = {#}" by simp
    also have "\<dots> \<longleftrightarrow> filter (\<lambda>names. last names = fname) (files_under es) = []"
      unfolding s by (auto simp: filter_empty_conv)
    also have "\<dots> \<longleftrightarrow> fname \<notin> last ` set (files_under es)"
      by (auto simp: filter_empty_conv)
    finally show ?thesis .
  qed
  from tree_scan_lookup [OF r f] obtain index where i: "tree_scan w root_abs = Inr index"
    and l: "\<And>fname. index fname
        = (if sel fname = [] then None else Some (sort_key (\<lambda>p. (depth p, p)) (sel fname)))"
    unfolding sel_def P_def by blast
  have c: "case index fname of
               None \<Rightarrow> fname \<notin> last ` set (files_under es)
             | Some paths \<Rightarrow>
                 fname \<in> last ` set (files_under es)
                 \<and> mset paths
                     = mset (map rel_path_of
                              (filter (\<lambda>names. last names = fname) (files_under es)))
                 \<and> sorted_wrt depth_lex_le paths" for fname
  proof (cases "sel fname = []")
    case True
    then show ?thesis using l [of fname] e [of fname] by simp
  next
    case False
    then show ?thesis using l [of fname] e [of fname] s [of fname] sorted_wrt_depth_lex [of "sel fname"]
      by simp
  qed
  have d: "\<forall>names \<in> set (files_under es). depth (rel_path_of names) = int (length names)"
    using files_under_valid [OF v] depth_join by (auto simp: rel_path_of_def)
  from i c d show "(\<exists>index. tree_scan w root_abs = Inr index
        \<and> (\<forall>fname. case index fname of
               None \<Rightarrow> fname \<notin> last ` set (files_under es)
             | Some paths \<Rightarrow>
                 fname \<in> last ` set (files_under es)
                 \<and> mset paths
                     = mset (map rel_path_of
                              (filter (\<lambda>names. last names = fname) (files_under es)))
                 \<and> sorted_wrt depth_lex_le paths))
     \<and> (\<forall>names \<in> set (files_under es). depth (rel_path_of names) = int (length names))"
    by blast
qed

text \<open>
  Claim C1. For a root that is a directory whose tree carries valid names, \<open>tree_scan\<close>
  returns an index; a filename borne by no file under the root has no entry; the entry of
  any other filename holds exactly the relative paths of the files under the root bearing
  that filename (as a multiset: each as often as there is such a file), sorted by
  ascending depth and then by the lexicographic order of the path strings. The depth the
  source computes for the relative path of a file is the number of names on the way from
  the root to the file: 1 directly in the root, one more per nested directory.
\<close>

theorem tree_scan_index:
  "root_abs \<noteq> [] \<and> fs w root_abs = Some (Dir m es) \<and> valid_names es \<longrightarrow>
     (\<exists>index. tree_scan w root_abs = Inr index
        \<and> (\<forall>fname. case index fname of
               None \<Rightarrow> fname \<notin> last ` set (files_under es)
             | Some paths \<Rightarrow>
                 fname \<in> last ` set (files_under es)
                 \<and> mset paths
                     = mset (map rel_path_of
                              (filter (\<lambda>names. last names = fname) (files_under es)))
                 \<and> sorted_wrt depth_lex_le paths))
     \<and> (\<forall>names \<in> set (files_under es). depth (rel_path_of names) = int (length names))"
  by (rule tree_scan_paths)

theorem tree_scan_index_witness:
  "''/srv/data'' \<noteq> [] \<and> fs example_world ''/srv/data'' = Some (Dir 7 example_tree)
   \<and> valid_names example_tree
   \<and> (\<exists>index. tree_scan example_world ''/srv/data'' = Inr index
         \<and> index ''x.txt'' = Some [''x.txt'', ''a/x.txt'', ''b/x.txt'', ''a/sub/x.txt'']
         \<and> ''x.txt'' \<in> last ` set (files_under example_tree)
         \<and> mset [''x.txt'', ''a/x.txt'', ''b/x.txt'', ''a/sub/x.txt'']
             = mset (map rel_path_of
                       (filter (\<lambda>names. last names = ''x.txt'') (files_under example_tree)))
         \<and> sorted_wrt depth_lex_le [''x.txt'', ''a/x.txt'', ''b/x.txt'', ''a/sub/x.txt'']
         \<and> index ''absent'' = None)
   \<and> [''a'', ''sub'', ''x.txt''] \<in> set (files_under example_tree)
   \<and> depth (rel_path_of [''a'', ''sub'', ''x.txt'']) = 3"
proof -
  have h: "''/srv/data'' \<noteq> []" "fs example_world ''/srv/data'' = Some (Dir 7 example_tree)"
    "valid_names example_tree"
    by code_simp+
  have m: "[''a'', ''sub'', ''x.txt''] \<in> set (files_under example_tree)"
    by code_simp
  have v: "case tree_scan example_world ''/srv/data'' of
             Inl e \<Rightarrow> False
           | Inr index \<Rightarrow> index ''x.txt'' = Some [''x.txt'', ''a/x.txt'', ''b/x.txt'', ''a/sub/x.txt'']
                \<and> index ''absent'' = None"
    by code_simp
  note T = tree_scan_index [of "''/srv/data''" example_world 7 example_tree, THEN mp, OF conjI,
      OF h(1) conjI, OF h(2) h(3)]
  from T obtain index where i: "tree_scan example_world ''/srv/data'' = Inr index"
    and c: "\<And>fname. case index fname of
               None \<Rightarrow> fname \<notin> last ` set (files_under example_tree)
             | Some paths \<Rightarrow>
                 fname \<in> last ` set (files_under example_tree)
                 \<and> mset paths
                     = mset (map rel_path_of
                              (filter (\<lambda>names. last names = fname) (files_under example_tree)))
                 \<and> sorted_wrt depth_lex_le paths"
    by blast
  from T m have d: "depth (rel_path_of [''a'', ''sub'', ''x.txt'']) = 3"
    by fastforce
  from v i have x: "index ''x.txt'' = Some [''x.txt'', ''a/x.txt'', ''b/x.txt'', ''a/sub/x.txt'']"
    and a: "index ''absent'' = None" by simp_all
  from c [of "''x.txt''"] x
  have p: "''x.txt'' \<in> last ` set (files_under example_tree)"
    "mset [''x.txt'', ''a/x.txt'', ''b/x.txt'', ''a/sub/x.txt'']
             = mset (map rel_path_of
                       (filter (\<lambda>names. last names = ''x.txt'') (files_under example_tree)))"
    "sorted_wrt depth_lex_le [''x.txt'', ''a/x.txt'', ''b/x.txt'', ''a/sub/x.txt'']"
    by (simp_all only: option.case)
  from h m d i x a p show ?thesis by blast
qed

section \<open>Properties of the lookup resolver\<close>







lemma tree_scan_sorted:
  assumes "tree_scan w root_abs = Inr index" and "index fname = Some paths"
  shows "paths \<noteq> [] \<and> sorted_wrt depth_lex_le paths"
proof -
  from assms(1) obtain root_node where
    i: "index = (\<lambda>fname. map_option (sort_key (\<lambda>p. (depth p, p)))
               (fold (\<lambda>d idx. scan_dir idx d) (os_walk root_node) Map.empty fname))"
    by (auto simp: tree_scan_def Let_def split: if_splits option.splits)
  define sel where "sel = map snd (filter (\<lambda>fp. fst fp = fname) (concat (map scan_pairs (os_walk root_node))))"
  have "fold (\<lambda>d idx. scan_dir idx d) (os_walk root_node) Map.empty fname
      = (if sel = [] then None else Some sel)"
    unfolding sel_def by (simp only: fold_scan_dir fold_setdefault_append option.case append_Nil)
  with i assms(2) have n: "sel \<noteq> []" and p: "paths = sort_key (\<lambda>p. (depth p, p)) sel"
    by (auto split: if_splits)
  have "length paths = length sel" unfolding p by (rule length_sort)
  with n have "paths \<noteq> []" by auto
  moreover have "sorted_wrt depth_lex_le paths" unfolding p by (rule sorted_wrt_depth_lex)
  ultimately show ?thesis by simp
qed

lemma example_facade_tree: "tree_scan example_world ''/srv/data'' = Inr (self_tree example_facade)"
  by (simp add: example_facade_def tree_scan_def example_world_def example_fs_def Let_def
        del: os_walk.simps)

lemma depth_lex_le_refl: "depth_lex_le p p"
  by (simp add: depth_lex_le_def)

lemma sorted_wrt_hd_least:
  assumes "sorted_wrt depth_lex_le paths" and "p \<in> set paths"
  shows "depth_lex_le (hd paths) p"
  using assms by (cases paths) (auto simp: depth_lex_le_refl)


text \<open>
  Claim C2. When the name is not empty, the base filename of the normalized name has a
  non-empty candidate list in the tree and the effective scope is empty or is \<^verbatim>\<open>.\<close>, the
  root itself, \<open>find\<close> selects the first candidate. In a tree built by \<open>tree_scan\<close> every
  candidate list is non-empty and its first element is least in the order by depth and
  then by path: the first candidate is the one with smallest (depth, path).
\<close>

theorem find_unscoped:
  "(name \<noteq> [] \<and> self_tree self (basename (normpath name)) = Some (cand # cands)
      \<and> (effective_start name start = [] \<or> effective_start name start = ''.'')
    \<longrightarrow> find_rel_path self name start = Inr cand)
   \<and> (tree_scan w root_abs = Inr (self_tree self) \<and> self_tree self fname = Some paths
    \<longrightarrow> paths \<noteq> [] \<and> (\<forall>p \<in> set paths. depth_lex_le (hd paths) p))"
proof (intro conjI impI; elim conjE)
  assume "name \<noteq> []" "self_tree self (basename (normpath name)) = Some (cand # cands)"
    "effective_start name start = [] \<or> effective_start name start = ''.''"
  then show "find_rel_path self name start = Inr cand"
    by (simp add: find_rel_path_def Let_def)
next
  assume "tree_scan w root_abs = Inr (self_tree self)" "self_tree self fname = Some paths"
  then have "paths \<noteq> [] \<and> sorted_wrt depth_lex_le paths" by (rule tree_scan_sorted)
  then show "paths \<noteq> []" "\<forall>p \<in> set paths. depth_lex_le (hd paths) p"
    using sorted_wrt_hd_least by blast+
qed

theorem find_unscoped_witness:
  "''x.txt'' \<noteq> []
   \<and> self_tree example_facade (basename (normpath ''x.txt''))
       = Some (''x.txt'' # [''a/x.txt'', ''b/x.txt'', ''a/sub/x.txt''])
   \<and> effective_start ''x.txt'' None = []
   \<and> find_rel_path example_facade ''x.txt'' None = Inr ''x.txt''
   \<and> ''./x.txt'' \<noteq> []
   \<and> self_tree example_facade (basename (normpath ''./x.txt''))
       = Some (''x.txt'' # [''a/x.txt'', ''b/x.txt'', ''a/sub/x.txt''])
   \<and> effective_start ''./x.txt'' (Some ''a/..'') = ''.''
   \<and> find_rel_path example_facade ''./x.txt'' (Some ''a/..'') = Inr ''x.txt''
   \<and> tree_scan example_world ''/srv/data'' = Inr (self_tree example_facade)
   \<and> self_tree example_facade ''x.txt'' = Some [''x.txt'', ''a/x.txt'', ''b/x.txt'', ''a/sub/x.txt'']
   \<and> depth_lex_le (hd [''x.txt'', ''a/x.txt'', ''b/x.txt'', ''a/sub/x.txt'']) ''a/sub/x.txt''"
proof -
  have a: "''x.txt'' \<noteq> []"
    and b: "self_tree example_facade (basename (normpath ''x.txt''))
       = Some (''x.txt'' # [''a/x.txt'', ''b/x.txt'', ''a/sub/x.txt''])"
    and c: "effective_start ''x.txt'' None = []"
    and a': "''./x.txt'' \<noteq> []"
    and b': "self_tree example_facade (basename (normpath ''./x.txt''))
       = Some (''x.txt'' # [''a/x.txt'', ''b/x.txt'', ''a/sub/x.txt''])"
    and c': "effective_start ''./x.txt'' (Some ''a/..'') = ''.''"
    and d: "self_tree example_facade ''x.txt'' = Some [''x.txt'', ''a/x.txt'', ''b/x.txt'', ''a/sub/x.txt'']"
    by code_simp+
  have m: "''a/sub/x.txt'' \<in> set [''x.txt'', ''a/x.txt'', ''b/x.txt'', ''a/sub/x.txt'']" by simp
  have 1: "find_rel_path example_facade ''x.txt'' None = Inr ''x.txt''"
    by (rule find_unscoped [THEN conjunct1, THEN mp, OF conjI, OF a conjI, OF b disjI1, OF c])
  have 2: "find_rel_path example_facade ''./x.txt'' (Some ''a/..'') = Inr ''x.txt''"
    by (rule find_unscoped [THEN conjunct1, THEN mp, OF conjI, OF a' conjI, OF b' disjI2, OF c'])
  have 3: "depth_lex_le (hd [''x.txt'', ''a/x.txt'', ''b/x.txt'', ''a/sub/x.txt'']) ''a/sub/x.txt''"
    by (rule find_unscoped [THEN conjunct2, THEN mp, OF conjI, OF example_facade_tree d,
          THEN conjunct2, rule_format, OF m])
  from a b c a' b' c' d 1 2 3 example_facade_tree show ?thesis by blast
qed



end
